theory Spec2Isabelle
  imports Complex_Main "HOL-Library.Word" "HOL-Library.AList"
begin

unbundle bit_operations_syntax

section \<open>pping-go: the packet-to-RTT pipeline of \<^verbatim>\<open>pping.go\<close>\<close>

text \<open>
  The embedding follows \<^verbatim>\<open>src/pping.go\<close> (functions \<^verbatim>\<open>fmtTimeDiff\<close>, \<^verbatim>\<open>addTS\<close>,
  \<^verbatim>\<open>getTS\<close>, \<^verbatim>\<open>getTSFromTCPOpts\<close>, \<^verbatim>\<open>processPacket\<close>, \<^verbatim>\<open>cleanUp\<close>) and the packet loop of
  \<^verbatim>\<open>main\<close>.

  Conventions of the model.
  \<^item> A value of Go's \<^verbatim>\<open>float64\<close> is a \<^typ>\<open>real\<close>; comparison, negation and
    \<^verbatim>\<open>math.Abs\<close> are exact in \<^verbatim>\<open>float64\<close> and are the ones of \<^typ>\<open>real\<close>. The
    operations that round (\<open>+\<close>, \<open>-\<close>, \<open>*\<close>, \<open>/\<close> and the conversion of an integer) are
    the fields of a record \<open>float64ops\<close> that \<^verbatim>\<open>fmtTimeDiff\<close>, \<^verbatim>\<open>cleanUp\<close> and the loop
    of \<^verbatim>\<open>main\<close> take as a parameter \<open>fp\<close>; nothing is assumed about them, so what is
    proved holds of the operations of the machine. These are \<open>ieeeOps\<close>, round to nearest
    with ties to even, and every example is evaluated with them. Inside \<^verbatim>\<open>processPacket\<close>
    the sums and differences of times and byte counts are taken without rounding.
  \<^item> Go's \<^verbatim>\<open>int\<close> and \<^verbatim>\<open>int64\<close> are modelled by \<^typ>\<open>int\<close> with the 64-bit
    two's-complement wrap-around \<open>int64\<close> written out at every arithmetic operation.
  \<^item> The package-level variables that \<^verbatim>\<open>main\<close> sets once before the loop (\<^verbatim>\<open>tsvalMaxAge\<close>,
    \<^verbatim>\<open>flowMaxIdle\<close>, \<^verbatim>\<open>sumInt\<close>, \<^verbatim>\<open>maxFlows\<close>, \<^verbatim>\<open>maxPackets\<close>, \<^verbatim>\<open>timeToRun\<close>,
    \<^verbatim>\<open>machineReadable\<close>, \<^verbatim>\<open>filtLocal\<close>, \<^verbatim>\<open>localIP\<close>, \<^verbatim>\<open>flushInt\<close>) form the record
    \<open>config\<close>; the ones the loop mutates form the record \<open>state\<close>, passed explicitly.
  \<^item> The two Go maps \<^verbatim>\<open>flows\<close> and \<^verbatim>\<open>tsTbl\<close> are association lists with pairwise
    distinct keys, so that \<^verbatim>\<open>range\<close> and \<^verbatim>\<open>len\<close> have a computable meaning. The maps
    hold pointers; a write through a pointer is a write to the entry stored under the
    key the pointer was read from (\<open>modify\<close>), which also covers the case where the
    forward and the reverse key of a packet coincide and both pointers alias.
  \<^item> A run-time panic is the \<open>Inl\<close> branch of the result.
  \<^item> What \<^verbatim>\<open>fmt.Printf\<close> writes is returned as a list of structured \<open>printed\<close> values.
\<close>

subsection \<open>Machine integers, durations, decimal rendering\<close>

definition int64 :: "int \<Rightarrow> int" where
  "int64 x = signed_take_bit 63 x"

text \<open>The rounding operations of \<^verbatim>\<open>float64\<close>: \<open>f_add fp x y\<close> is the \<^verbatim>\<open>float64\<close> the
  machine returns for \<^verbatim>\<open>x + y\<close>, and so on; \<open>f_int fp i\<close> is \<^verbatim>\<open>float64(i)\<close> for an
  integer \<open>i\<close>.\<close>

record float64ops =
  f_add :: "real \<Rightarrow> real \<Rightarrow> real"
  f_sub :: "real \<Rightarrow> real \<Rightarrow> real"
  f_mul :: "real \<Rightarrow> real \<Rightarrow> real"
  f_div :: "real \<Rightarrow> real \<Rightarrow> real"
  f_int :: "int \<Rightarrow> real"

text \<open>\<^verbatim>\<open>float64(d)/float64(time.Second)\<close> for a \<^verbatim>\<open>time.Duration\<close> (an integer count of
  nanoseconds); \<^verbatim>\<open>float64(time.Second)\<close> is the constant \<open>10\<^sup>9\<close>.\<close>

definition seconds :: "float64ops \<Rightarrow> int \<Rightarrow> real" where
  "seconds fp d = f_div fp (f_int fp d) (10 ^ 9)"

text \<open>
  The arithmetic of \<^verbatim>\<open>float64\<close> on finite values: the exact result, rounded to the nearest
  number with a 53-bit significand, ties to the even significand; below \<open>2\<^sup>-\<^sup>1\<^sup>0\<^sup>2\<^sup>2\<close> the
  spacing stays \<open>2\<^sup>-\<^sup>1\<^sup>0\<^sup>7\<^sup>4\<close>. Overflow to an infinity and \<^verbatim>\<open>NaN\<close> have no counterpart in
  \<^typ>\<open>real\<close>. \<open>binExp x\<close> is the exponent \<open>e\<close> with \<open>2\<^sup>e \<le> |x| < 2\<^sup>e\<^sup>+\<^sup>1\<close>.
\<close>

fun bitLength :: "nat \<Rightarrow> nat" where
  "bitLength n = (if n = 0 then 0 else Suc (bitLength (n div 2)))"

declare bitLength.simps [simp del]

definition binExp :: "real \<Rightarrow> int" where
  "binExp x =
     (if 1 \<le> \<bar>x\<bar> then int (bitLength (nat \<lfloor>\<bar>x\<bar>\<rfloor>)) - 1
      else - int (bitLength (nat (\<lceil>1 / \<bar>x\<bar>\<rceil> - 1))))"

definition roundEven :: "real \<Rightarrow> int" where
  "roundEven y =
     (if y - of_int \<lfloor>y\<rfloor> < 1 / 2 then \<lfloor>y\<rfloor>
      else if 1 / 2 < y - of_int \<lfloor>y\<rfloor> then \<lfloor>y\<rfloor> + 1
      else if even \<lfloor>y\<rfloor> then \<lfloor>y\<rfloor> else \<lfloor>y\<rfloor> + 1)"

definition ulp64 :: "real \<Rightarrow> real" where
  "ulp64 x =
     (let e = max (binExp x) (- 1022) - 52
      in if 0 \<le> e then 2 ^ nat e else 1 / 2 ^ nat (- e))"

definition round64 :: "real \<Rightarrow> real" where
  "round64 x = (if x = 0 then 0 else of_int (roundEven (x / ulp64 x)) * ulp64 x)"

definition ieeeOps :: float64ops where
  "ieeeOps =
     \<lparr>f_add = (\<lambda>x y. round64 (x + y)), f_sub = (\<lambda>x y. round64 (x - y)),
      f_mul = (\<lambda>x y. round64 (x * y)), f_div = (\<lambda>x y. round64 (x / y)),
      f_int = (\<lambda>i. round64 (of_int i))\<rparr>"

text \<open>\<^verbatim>\<open>strconv.FormatUint(n, 10)\<close>; \<^verbatim>\<open>strconv.Itoa\<close> agrees with it on the
  non-negative arguments it receives here (TCP ports).\<close>

fun FormatUint :: "nat \<Rightarrow> string" where
  "FormatUint n =
     (if n < 10 then [''0123456789'' ! n]
      else FormatUint (n div 10) @ [''0123456789'' ! (n mod 10)])"

declare FormatUint.simps [simp del]

definition Itoa :: "int \<Rightarrow> string" where
  "Itoa i = (if i < 0 then ''-'' @ FormatUint (nat (- i)) else FormatUint (nat i))"

subsection \<open>Data model\<close>

record flowRec =
  flowname :: string
  last_tm :: real
  min_fr :: real
  bytesSnt :: real
  lstBytesSnt :: real
  bytesDep :: real
  revFlow :: bool

record tsInfo =
  t_ts :: real
  fBytes :: real
  dBytes :: real

record config =
  tsvalMaxAge :: int
  flowMaxIdle :: int
  sumInt :: int
  maxFlows :: int
  maxPackets :: int
  timeToRun :: int
  machineReadable :: bool
  filtLocal :: bool
  localIP :: string
  flushInt :: int

record state =
  flows :: "(string \<times> flowRec) list"
  tsTbl :: "(string \<times> tsInfo) list"
  offTm :: int
  capTm :: real
  startm :: real
  pktCnt :: int
  not_tcp :: int
  no_TS :: int
  not_v4or6 :: int
  uniDir :: int
  flowCnt :: int
  nextFlush :: int

text \<open>The values the source gives its variables at declaration. \<^verbatim>\<open>main\<close> then sets
  \<^verbatim>\<open>nextFlush = clockNow() + flushInt\<close>; \<open>nf\<close> stands for that value.\<close>

definition initState :: "int \<Rightarrow> state" where
  "initState nf =
     \<lparr>flows = [], tsTbl = [], offTm = - 1, capTm = 0, startm = 0, pktCnt = 0, not_tcp = 0,
      no_TS = 0, not_v4or6 = 0, uniDir = 0, flowCnt = 0, nextFlush = nf\<rparr>"

definition defaultConfig :: config where
  "defaultConfig =
     \<lparr>tsvalMaxAge = 10 * 10 ^ 9, flowMaxIdle = 300 * 10 ^ 9, sumInt = 10 * 10 ^ 9,
      maxFlows = 10000, maxPackets = 0, timeToRun = 0, machineReadable = False,
      filtLocal = True, localIP = [], flushInt = 2 ^ 20\<rparr>"

subsection \<open>Decoded packets\<close>

text \<open>
  A decoded \<^verbatim>\<open>gopacket.Packet\<close>, reduced to what \<^verbatim>\<open>processPacket\<close> reads: the TCP layer
  (if any), the IPv4 and IPv6 layers (if any) with their addresses already in the textual
  form \<^verbatim>\<open>IP.String()\<close> returns, the capture timestamp as \<^verbatim>\<open>Unix()\<close> and
  \<^verbatim>\<open>Nanosecond()\<close>, and the wire length. \<open>clock\<close> is the value \<^verbatim>\<open>clockNow()\<close> returns
  while this packet is processed.
\<close>

record TCPOption =
  OptionType :: "8 word"
  OptionLength :: "8 word"
  OptionData :: "8 word list"

record TCP =
  SrcPort :: "16 word"
  DstPort :: "16 word"
  SYN :: bool
  Options :: "TCPOption list"

record IPLayer =
  SrcIP :: string
  DstIP :: string

record packet =
  tcpLayer :: "TCP option"
  ipv4Layer :: "IPLayer option"
  ipv6Layer :: "IPLayer option"
  tsUnix :: int
  tsNano :: nat
  Length :: int
  clock :: int

datatype panic = SliceBounds | NilDeref

record sample =
  s_unix :: int
  s_nano :: nat
  s_rtt :: real
  s_min :: real
  s_fBytes :: real
  s_dBytes :: real
  s_pBytes :: real
  s_fstr :: string

text \<open>
  \<open>Sample\<close> is the per-sample \<^verbatim>\<open>Printf\<close> of \<^verbatim>\<open>processPacket\<close>: it carries the values both
  formats are rendered from (the machine format prints \<open>s_rtt\<close>, \<open>s_min\<close> and the three
  byte counts, the human format prints \<open>s_rtt\<close> and \<open>s_min\<close> through \<^verbatim>\<open>fmtTimeDiff\<close>
  and the flow name). \<open>Summary\<close> is \<^verbatim>\<open>printSummary\<close> with the six counters it reads,
  \<open>Captured\<close> the closing line of \<^verbatim>\<open>main\<close>.
\<close>

datatype printed =
    FirstPacketAt int nat
  | Sample sample
  | Summary int int int int int int
  | Captured int real

subsection \<open>\<^verbatim>\<open>fmtTimeDiff\<close>\<close>

text \<open>\<^verbatim>\<open>fmt.Sprintf\<close> is a parameter, its result type (\<^verbatim>\<open>string\<close> in the source) left
  open: the function is modelled up to the call it makes. The two products
  \<^verbatim>\<open>dt *= 1e6\<close> and \<^verbatim>\<open>dt *= 1e3\<close> are \<^verbatim>\<open>float64\<close> multiplications.\<close>

definition fmtTimeDiff ::
  "(string \<Rightarrow> real \<Rightarrow> string \<Rightarrow> 'a) \<Rightarrow> float64ops \<Rightarrow> real \<Rightarrow> 'a" where
  "fmtTimeDiff Sprintf fp dt0 =
     (let (dt, SIprefix) =
            (if dt0 < 1 / 10 ^ 3 then (f_mul fp dt0 (10 ^ 6), ''u'')
             else if dt0 < 1 then (f_mul fp dt0 (10 ^ 3), ''m'')
             else (dt0, []));
          fmtStr =
            (if dt < 10 then ''%.2f%ss''
             else if dt < 100 then ''%.1f%ss''
             else '' %.0f%ss'')
      in Sprintf fmtStr dt SIprefix)"

subsection \<open>The timestamp table\<close>

definition addTS :: "string \<Rightarrow> tsInfo \<Rightarrow> (string \<times> tsInfo) list \<Rightarrow> (string \<times> tsInfo) list" where
  "addTS key ti tbl = (if map_of tbl key = None then AList.update key ti tbl else tbl)"

definition getTS :: "string \<Rightarrow> (string \<times> tsInfo) list \<Rightarrow> tsInfo option" where
  "getTS key tbl = map_of tbl key"

text \<open>A write through the pointer stored under \<open>key\<close>.\<close>

definition modify :: "string \<Rightarrow> ('v \<Rightarrow> 'v) \<Rightarrow> (string \<times> 'v) list \<Rightarrow> (string \<times> 'v) list" where
  "modify key f tbl = map (\<lambda>(k, v). if k = key then (k, f v) else (k, v)) tbl"

subsection \<open>\<^verbatim>\<open>getTSFromTCPOpts\<close>\<close>

text \<open>\<^verbatim>\<open>binary.BigEndian.Uint32\<close> on a four-byte slice.\<close>

definition be32 :: "8 word list \<Rightarrow> 32 word" where
  "be32 b = ucast (b ! 3) OR push_bit 8 (ucast (b ! 2)) OR push_bit 16 (ucast (b ! 1))
            OR push_bit 24 (ucast (b ! 0))"

text \<open>
  The loop over \<^verbatim>\<open>tcp.Options\<close> stops at the first Timestamps option (kind 8) of length
  10. The slice expressions \<^verbatim>\<open>OptionData[0:4]\<close> and \<^verbatim>\<open>OptionData[4:8]\<close> panic when the
  slice is too short; the decoder hands over \<^verbatim>\<open>OptionLength - 2\<close> bytes, so for a decoded
  option of length 10 there are 8.
\<close>

fun getTSFromTCPOpts :: "TCPOption list \<Rightarrow> panic + (32 word \<times> 32 word)" where
  "getTSFromTCPOpts [] = Inr (0, 0)"
| "getTSFromTCPOpts (opt # opts) =
     (if OptionType opt = 8 \<and> OptionLength opt = 10 then
        (if length (OptionData opt) < 8 then Inl SliceBounds
         else Inr (be32 (take 4 (OptionData opt)), be32 (take 4 (drop 4 (OptionData opt)))))
      else getTSFromTCPOpts opts)"

subsection \<open>\<^verbatim>\<open>processPacket\<close>\<close>

text \<open>\<^verbatim>\<open>pkt.Layer(LayerTypeIPv4)\<close>, and \<^verbatim>\<open>pkt.Layer(LayerTypeIPv6)\<close> when that is nil.\<close>

definition netLayer :: "packet \<Rightarrow> IPLayer option" where
  "netLayer pkt = (case ipv4Layer pkt of Some ip \<Rightarrow> Some ip | None \<Rightarrow> ipv6Layer pkt)"

text \<open>The strings \<^verbatim>\<open>srcStr\<close>, \<^verbatim>\<open>dstStr\<close>, \<^verbatim>\<open>fstr\<close>, the reverse key
  \<^verbatim>\<open>dstStr+"+"+srcStr\<close> and the two timestamp-table keys of a packet.\<close>

definition srcStr :: "IPLayer \<Rightarrow> TCP \<Rightarrow> string" where
  "srcStr ip tcp = SrcIP ip @ '':'' @ Itoa (uint (SrcPort tcp))"

definition dstStr :: "IPLayer \<Rightarrow> TCP \<Rightarrow> string" where
  "dstStr ip tcp = DstIP ip @ '':'' @ Itoa (uint (DstPort tcp))"

definition fstrOf :: "IPLayer \<Rightarrow> TCP \<Rightarrow> string" where
  "fstrOf ip tcp = srcStr ip tcp @ ''+'' @ dstStr ip tcp"

definition rstrOf :: "IPLayer \<Rightarrow> TCP \<Rightarrow> string" where
  "rstrOf ip tcp = dstStr ip tcp @ ''+'' @ srcStr ip tcp"

definition tsKey :: "string \<Rightarrow> 32 word \<Rightarrow> string" where
  "tsKey fl v = fl @ ''+'' @ FormatUint (unat v)"

text \<open>Lines 165-179: the capture time of the packet becomes \<^verbatim>\<open>capTm\<close>; the first packet
  that gets this far anchors \<^verbatim>\<open>offTm\<close> and \<^verbatim>\<open>startm\<close>.\<close>

definition setClock :: "config \<Rightarrow> packet \<Rightarrow> state \<Rightarrow> state \<times> printed list" where
  "setClock cfg pkt s =
     (if offTm s < 0 then
        (s\<lparr>offTm := tsUnix pkt,
           startm := real (tsNano pkt) * (1 / 10 ^ 9),
           capTm := real (tsNano pkt) * (1 / 10 ^ 9)\<rparr>,
         if sumInt cfg > 0 then [FirstPacketAt (tsUnix pkt) (tsNano pkt)] else [])
      else
        (s\<lparr>capTm := real_of_int (int64 (tsUnix pkt - offTm s))
                      + real (tsNano pkt) * (1 / 10 ^ 9)\<rparr>, []))"

text \<open>Lines 181-200: look the flow up, or create it. \<open>None\<close> is the early return at
  capacity; otherwise the state and the record \<^verbatim>\<open>fr\<close> points to.\<close>

definition newFlowRec :: "string \<Rightarrow> flowRec" where
  "newFlowRec fstr =
     \<lparr>flowname = fstr, last_tm = 0, min_fr = 10 ^ 30, bytesSnt = 0, lstBytesSnt = 0,
      bytesDep = 0, revFlow = False\<rparr>"

definition acquireFlow :: "config \<Rightarrow> string \<Rightarrow> string \<Rightarrow> state \<Rightarrow> (state \<times> flowRec) option" where
  "acquireFlow cfg fstr rstr s =
     (case map_of (flows s) fstr of
        Some fr \<Rightarrow> Some (s, fr)
      | None \<Rightarrow>
          if flowCnt s \<ge> maxFlows cfg then None
          else
            let s1 = s\<lparr>flows := AList.update fstr (newFlowRec fstr) (flows s),
                       flowCnt := int64 (flowCnt s + 1)\<rparr>
            in if map_of (flows s1) rstr \<noteq> None then
                 Some (s1\<lparr>flows := modify fstr (\<lambda>r. r\<lparr>revFlow := True\<rparr>)
                                     (modify rstr (\<lambda>r. r\<lparr>revFlow := True\<rparr>) (flows s1))\<rparr>,
                       (newFlowRec fstr)\<lparr>revFlow := True\<rparr>)
               else Some (s1, newFlowRec fstr))"

text \<open>Lines 217-249: the echo lookup. \<open>fr\<close> is the record of the packet's own flow as it
  stands when the lookup starts, \<open>key\<close> the timestamp-table key of the reverse flow and
  \<^verbatim>\<open>TSecr\<close>. \<^verbatim>\<open>flows[dstStr+"+"+srcStr].bytesDep = fBytes\<close> dereferences a nil pointer when
  the reverse flow is not in the table.\<close>

definition echoMatch ::
  "config \<Rightarrow> packet \<Rightarrow> string \<Rightarrow> string \<Rightarrow> string \<Rightarrow> real \<Rightarrow> flowRec \<Rightarrow> state
     \<Rightarrow> panic + (state \<times> printed list)" where
  "echoMatch cfg pkt fstr rstr key arr_fwd fr s =
     (case getTS key (tsTbl s) of
        None \<Rightarrow> Inr (s, [])
      | Some ti \<Rightarrow>
          if t_ts ti > 0 then
            let t = t_ts ti;
                rtt = capTm s - t;
                s1 = (if min_fr fr > rtt
                      then s\<lparr>flows := modify fstr (\<lambda>r. r\<lparr>min_fr := rtt\<rparr>) (flows s)\<rparr>
                      else s);
                frmin = (if min_fr fr > rtt then rtt else min_fr fr);
                pBytes = arr_fwd - lstBytesSnt fr;
                s2 = s1\<lparr>flows := modify fstr (\<lambda>r. r\<lparr>lstBytesSnt := arr_fwd\<rparr>) (flows s1)\<rparr>
            in (case map_of (flows s2) rstr of
                  None \<Rightarrow> Inl NilDeref
                | Some rr \<Rightarrow>
                    let s3 = s2\<lparr>flows := modify rstr (\<lambda>r. r\<lparr>bytesDep := fBytes ti\<rparr>) (flows s2)\<rparr>;
                        s4 = (if int64 (clock pkt - nextFlush s3) \<ge> 0
                              then s3\<lparr>nextFlush := int64 (clock pkt + flushInt cfg)\<rparr>
                              else s3);
                        s5 = s4\<lparr>tsTbl := modify key (\<lambda>e. e\<lparr>t_ts := - t\<rparr>) (tsTbl s4)\<rparr>
                    in Inr (s5, [Sample \<lparr>s_unix = tsUnix pkt, s_nano = tsNano pkt, s_rtt = rtt,
                                         s_min = frmin, s_fBytes = fBytes ti,
                                         s_dBytes = dBytes ti, s_pBytes = pBytes,
                                         s_fstr = fstr\<rparr>]))
          else Inr (s, []))"

text \<open>Lines 209-215: the byte accounting of the packet's flow and, unless the packet goes to
  the local address while local traffic is filtered, the insertion into the timestamp
  table. \<open>fr\<close> is the record of the flow as \<^verbatim>\<open>processPacket\<close> found or created it.\<close>

definition depositTS ::
  "config \<Rightarrow> IPLayer \<Rightarrow> string \<Rightarrow> 32 word \<Rightarrow> real \<Rightarrow> flowRec \<Rightarrow> state \<Rightarrow> state" where
  "depositTS cfg ip fstr tsval arr_fwd fr s3 =
     (let s4 = s3\<lparr>flows := modify fstr (\<lambda>r. r\<lparr>bytesSnt := arr_fwd\<rparr>) (flows s3)\<rparr>
      in if \<not> filtLocal cfg \<or> localIP cfg \<noteq> DstIP ip then
           s4\<lparr>tsTbl := addTS (tsKey fstr tsval)
                 \<lparr>t_ts = capTm s4, fBytes = arr_fwd, dBytes = bytesDep fr\<rparr> (tsTbl s4)\<rparr>
         else s4)"

text \<open>Lines 165-250: what \<^verbatim>\<open>processPacket\<close> does with a packet that has passed its three
  checks; \<open>tcp\<close> and \<open>ip\<close> are the layers found, \<open>tsval\<close> and \<open>tsecr\<close> the extracted
  timestamps.\<close>

definition processFlow ::
  "config \<Rightarrow> packet \<Rightarrow> TCP \<Rightarrow> IPLayer \<Rightarrow> 32 word \<Rightarrow> 32 word \<Rightarrow> state
     \<Rightarrow> panic + (state \<times> printed list)" where
  "processFlow cfg pkt tcp ip tsval tsecr s =
     (let fstr = fstrOf ip tcp;
          rstr = rstrOf ip tcp;
          (s1, out1) = setClock cfg pkt s
      in (case acquireFlow cfg fstr rstr s1 of
            None \<Rightarrow> Inr (s1, out1)
          | Some (s2, fr) \<Rightarrow>
              let s3 = s2\<lparr>flows := modify fstr (\<lambda>r. r\<lparr>last_tm := capTm s2\<rparr>) (flows s2)\<rparr>
              in if \<not> revFlow fr then
                   Inr (s3\<lparr>uniDir := int64 (uniDir s3 + 1)\<rparr>, out1)
                 else
                   let arr_fwd = bytesSnt fr + real_of_int (Length pkt);
                       s5 = depositTS cfg ip fstr tsval arr_fwd fr s3
                   in (case echoMatch cfg pkt fstr rstr (tsKey rstr tsecr) arr_fwd fr s5 of
                         Inl e \<Rightarrow> Inl e
                       | Inr (s6, out2) \<Rightarrow>
                           Inr (s6\<lparr>pktCnt := int64 (pktCnt s6 + 1)\<rparr>, out1 @ out2))))"

definition processPacket :: "config \<Rightarrow> packet \<Rightarrow> state \<Rightarrow> panic + (state \<times> printed list)" where
  "processPacket cfg pkt s =
     (case tcpLayer pkt of
        None \<Rightarrow> Inr (s\<lparr>not_tcp := int64 (not_tcp s + 1)\<rparr>, [])
      | Some tcp \<Rightarrow>
          (case getTSFromTCPOpts (Options tcp) of
             Inl e \<Rightarrow> Inl e
           | Inr (tsval, tsecr) \<Rightarrow>
               if tsval = 0 \<or> (tsecr = 0 \<and> \<not> SYN tcp) then
                 Inr (s\<lparr>no_TS := int64 (no_TS s + 1)\<rparr>, [])
               else
                 (case netLayer pkt of
                    None \<Rightarrow> Inr (s\<lparr>not_v4or6 := int64 (not_v4or6 s + 1)\<rparr>, [])
                  | Some ip \<Rightarrow> processFlow cfg pkt tcp ip tsval tsecr s)))"

subsection \<open>\<^verbatim>\<open>cleanUp\<close>\<close>

text \<open>
  Each \<^verbatim>\<open>range\<close> loop visits the entries the table holds when the loop starts (the second
  argument) and deletes from the table (the third). The timestamp loop compares against
  the global \<^verbatim>\<open>capTm\<close>, the flow loop against the argument \<^verbatim>\<open>n\<close>. Both ages and both
  limits are computed in \<^verbatim>\<open>float64\<close>.
\<close>

fun sweepTS ::
  "float64ops \<Rightarrow> config \<Rightarrow> real \<Rightarrow> (string \<times> tsInfo) list \<Rightarrow> (string \<times> tsInfo) list
     \<Rightarrow> (string \<times> tsInfo) list" where
  "sweepTS fp cfg now [] tbl = tbl"
| "sweepTS fp cfg now ((k, ti) # rest) tbl =
     sweepTS fp cfg now rest
       (if f_sub fp now \<bar>t_ts ti\<bar> > seconds fp (tsvalMaxAge cfg)
        then AList.delete k tbl else tbl)"

fun sweepFlows ::
  "float64ops \<Rightarrow> config \<Rightarrow> real \<Rightarrow> (string \<times> flowRec) list
     \<Rightarrow> (string \<times> flowRec) list \<times> int \<Rightarrow> (string \<times> flowRec) list \<times> int" where
  "sweepFlows fp cfg n [] acc = acc"
| "sweepFlows fp cfg n ((k, fr) # rest) (tbl, cnt) =
     sweepFlows fp cfg n rest
       (if f_sub fp n (last_tm fr) > seconds fp (flowMaxIdle cfg)
        then (AList.delete k tbl, int64 (cnt - 1)) else (tbl, cnt))"

definition cleanUp :: "float64ops \<Rightarrow> config \<Rightarrow> real \<Rightarrow> state \<Rightarrow> state" where
  "cleanUp fp cfg n s =
     (let ts' = sweepTS fp cfg (capTm s) (tsTbl s) (tsTbl s);
          (fl', cnt') = sweepFlows fp cfg n (flows s) (flows s, flowCnt s)
      in s\<lparr>tsTbl := ts', flows := fl', flowCnt := cnt'\<rparr>)"

subsection \<open>The packet loop of \<^verbatim>\<open>main\<close>\<close>

record loopState =
  eng :: state
  nxtSum :: real
  nxtClean :: real

definition printSummary :: "state \<Rightarrow> printed" where
  "printSummary s = Summary (flowCnt s) (pktCnt s) (no_TS s) (uniDir s) (not_tcp s) (not_v4or6 s)"

text \<open>One iteration of \<^verbatim>\<open>for packet := range packets\<close>. The Boolean is \<^verbatim>\<open>break\<close>.\<close>

definition mainIter ::
  "float64ops \<Rightarrow> config \<Rightarrow> packet \<Rightarrow> loopState
     \<Rightarrow> panic + (bool \<times> loopState \<times> printed list)" where
  "mainIter fp cfg pkt ls =
     (case processPacket cfg pkt (eng ls) of
        Inl e \<Rightarrow> Inl e
      | Inr (s1, out1) \<Rightarrow>
          if (timeToRun cfg > 0
              \<and> f_sub fp (capTm s1) (startm s1) \<ge> seconds fp (timeToRun cfg))
             \<or> (maxPackets cfg > 0 \<and> pktCnt s1 \<ge> maxPackets cfg) then
            Inr (True, ls\<lparr>eng := s1\<rparr>,
                 out1 @ [printSummary s1, Captured (pktCnt s1) (f_sub fp (capTm s1) (startm s1))])
          else
            let (s2, sum2, out2) =
                  (if capTm s1 \<ge> nxtSum ls \<and> sumInt cfg > 0 then
                     (if nxtSum ls > 0 then
                        (s1\<lparr>pktCnt := 0, no_TS := 0, uniDir := 0, not_tcp := 0, not_v4or6 := 0\<rparr>,
                         f_add fp (capTm s1) (seconds fp (sumInt cfg)), [printSummary s1])
                      else (s1, f_add fp (capTm s1) (seconds fp (sumInt cfg)), []))
                   else (s1, nxtSum ls, []));
                (s3, clean3) =
                  (if capTm s2 \<ge> nxtClean ls then
                     (cleanUp fp cfg (capTm s2) s2, f_add fp (capTm s2) (seconds fp (tsvalMaxAge cfg)))
                   else (s2, nxtClean ls))
            in Inr (False, \<lparr>eng = s3, nxtSum = sum2, nxtClean = clean3\<rparr>, out1 @ out2))"

text \<open>The loop over the packets the source delivers. The trace records, for every packet
  processed, what was printed and the loop state after the iteration.\<close>

fun mainLoop ::
  "float64ops \<Rightarrow> config \<Rightarrow> packet list \<Rightarrow> loopState
     \<Rightarrow> panic + (loopState \<times> (packet \<times> printed list \<times> loopState) list)" where
  "mainLoop fp cfg [] ls = Inr (ls, [])"
| "mainLoop fp cfg (pkt # pkts) ls =
     (case mainIter fp cfg pkt ls of
        Inl e \<Rightarrow> Inl e
      | Inr (brk, ls1, out) \<Rightarrow>
          if brk then Inr (ls1, [(pkt, out, ls1)])
          else (case mainLoop fp cfg pkts ls1 of
                  Inl e \<Rightarrow> Inl e
                | Inr (ls2, tr) \<Rightarrow> Inr (ls2, (pkt, out, ls1) # tr)))"

definition initLoop :: "int \<Rightarrow> loopState" where
  "initLoop nf = \<lparr>eng = initState nf, nxtSum = 0, nxtClean = 0\<rparr>"

subsection \<open>Reading a run\<close>

text \<open>The value a call returned, \<open>None\<close> when it panicked.\<close>

definition returned :: "panic + 'a \<Rightarrow> 'a option" where
  "returned r = (case r of Inl e \<Rightarrow> None | Inr x \<Rightarrow> Some x)"

fun samplesOf :: "printed list \<Rightarrow> sample list" where
  "samplesOf [] = []"
| "samplesOf (Sample x # out) = x # samplesOf out"
| "samplesOf (_ # out) = samplesOf out"

definition runFinal ::
  "panic + (loopState \<times> (packet \<times> printed list \<times> loopState) list) \<Rightarrow> loopState option" where
  "runFinal r = (case r of Inl e \<Rightarrow> None | Inr (ls, tr) \<Rightarrow> Some ls)"

definition runTrace ::
  "panic + (loopState \<times> (packet \<times> printed list \<times> loopState) list)
     \<Rightarrow> (packet \<times> printed list \<times> loopState) list" where
  "runTrace r = (case r of Inl e \<Rightarrow> [] | Inr (ls, tr) \<Rightarrow> tr)"

definition runSamples ::
  "panic + (loopState \<times> (packet \<times> printed list \<times> loopState) list) \<Rightarrow> sample list" where
  "runSamples r = concat (map (\<lambda>(pkt, out, ls). samplesOf out) (runTrace r))"

text \<open>The timestamp-table key \<^verbatim>\<open>processPacket\<close> looks up for a packet: reverse flow and
  \<^verbatim>\<open>TSecr\<close>; \<open>None\<close> for a packet that does not reach the lookup for lack of a layer.\<close>

definition echoKey :: "packet \<Rightarrow> string option" where
  "echoKey pkt =
     (case tcpLayer pkt of
        None \<Rightarrow> None
      | Some tcp \<Rightarrow>
          (case getTSFromTCPOpts (Options tcp) of
             Inl e \<Rightarrow> None
           | Inr (tsval, tsecr) \<Rightarrow>
               (case netLayer pkt of
                  None \<Rightarrow> None
                | Some ip \<Rightarrow> Some (tsKey (rstrOf ip tcp) tsecr))))"

text \<open>The number of packets of a trace that looked up \<open>key\<close> and printed a sample.\<close>

definition samplesOn :: "string \<Rightarrow> (packet \<times> printed list \<times> loopState) list \<Rightarrow> nat" where
  "samplesOn key tr =
     length (filter (\<lambda>(pkt, out, ls). echoKey pkt = Some key \<and> samplesOf out \<noteq> []) tr)"

text \<open>The capture time of a packet in seconds since the epoch.\<close>

definition wallTime :: "packet \<Rightarrow> real" where
  "wallTime pkt = real_of_int (tsUnix pkt) + real (tsNano pkt) * (1 / 10 ^ 9)"

subsection \<open>Invariants of the tables\<close>

text \<open>The flow table has distinct keys, \<^verbatim>\<open>flowCnt\<close> is its size, and that is at most
  \<^verbatim>\<open>maxFlows\<close>.\<close>

definition flowInv :: "config \<Rightarrow> state \<Rightarrow> bool" where
  "flowInv cfg s \<longleftrightarrow>
     distinct (map fst (flows s)) \<and> flowCnt s = int (length (flows s)) \<and> flowCnt s \<le> maxFlows cfg"



subsection \<open>Flows observed in a run\<close>







subsection \<open>Concrete packets and captures\<close>

text \<open>A Timestamps option with \<^verbatim>\<open>TSval\<close> \<open>v\<close> and \<^verbatim>\<open>TSecr\<close> \<open>e\<close> (both below 256), and an
  IPv4 TCP packet of wire length 100 carrying it.\<close>

definition tsOpt :: "8 word \<Rightarrow> 8 word \<Rightarrow> TCPOption" where
  "tsOpt v e = \<lparr>OptionType = 8, OptionLength = 10, OptionData = [0, 0, 0, v, 0, 0, 0, e]\<rparr>"

definition tcpPkt ::
  "string \<Rightarrow> 16 word \<Rightarrow> string \<Rightarrow> 16 word \<Rightarrow> bool \<Rightarrow> 8 word \<Rightarrow> 8 word \<Rightarrow> int \<Rightarrow> nat \<Rightarrow> packet" where
  "tcpPkt a pa b pb syn v e sec ns =
     \<lparr>tcpLayer = Some \<lparr>SrcPort = pa, DstPort = pb, SYN = syn, Options = [tsOpt v e]\<rparr>,
      ipv4Layer = Some \<lparr>SrcIP = a, DstIP = b\<rparr>, ipv6Layer = None,
      tsUnix = sec, tsNano = ns, Length = 100, clock = 0\<rparr>"

text \<open>Scenario S1 of the specification: two SYNs, then an echo in each direction.\<close>

definition captureS1 :: "packet list" where
  "captureS1 =
     [tcpPkt ''10.0.0.1'' 1000 ''10.0.0.2'' 2000 True 100 0 5 0,
      tcpPkt ''10.0.0.2'' 2000 ''10.0.0.1'' 1000 True 200 0 5 50000000,
      tcpPkt ''10.0.0.1'' 1000 ''10.0.0.2'' 2000 False 101 200 5 100000000,
      tcpPkt ''10.0.0.2'' 2000 ''10.0.0.1'' 1000 False 201 101 5 150000000]"

text \<open>The two flow keys of scenario S1, the state after \<^verbatim>\<open>processPacket\<close> has seen its first
  packet, and the state after the second.\<close>

definition flowAB :: string where
  "flowAB = ''10.0.0.1:1000+10.0.0.2:2000''"

definition flowBA :: string where
  "flowBA = ''10.0.0.2:2000+10.0.0.1:1000''"

definition stateAfterSyn :: state where
  "stateAfterSyn =
     (initState 0)\<lparr>flows := [(flowAB, newFlowRec flowAB)], offTm := 5, uniDir := 1, flowCnt := 1\<rparr>"

definition stateAfterSynAck :: state where
  "stateAfterSynAck =
     (initState 0)
       \<lparr>flows := [(flowAB, (newFlowRec flowAB)\<lparr>revFlow := True\<rparr>),
                  (flowBA, (newFlowRec flowBA)\<lparr>last_tm := 1 / 20, bytesSnt := 100,
                                               revFlow := True\<rparr>)],
        tsTbl := [(flowBA @ ''+200'', \<lparr>t_ts = 1 / 20, fBytes = 100, dBytes = 0\<rparr>)],
        offTm := 5, capTm := 1 / 20, pktCnt := 1, uniDir := 1, flowCnt := 2\<rparr>"

text \<open>A capture in which the sender of the flow \<open>10.0.0.1:1000 \<rightarrow> 10.0.0.2:2000\<close> uses
  \<^verbatim>\<open>TSval\<close> 101 at second 7 and again at second 26, with an echo after each; the sweeper
  runs at second 25.\<close>

definition captureEvict :: "packet list" where
  "captureEvict =
     [tcpPkt ''10.0.0.1'' 1000 ''10.0.0.2'' 2000 True 100 0 5 0,
      tcpPkt ''10.0.0.2'' 2000 ''10.0.0.1'' 1000 True 200 0 6 0,
      tcpPkt ''10.0.0.1'' 1000 ''10.0.0.2'' 2000 False 101 200 7 0,
      tcpPkt ''10.0.0.2'' 2000 ''10.0.0.1'' 1000 False 201 101 8 0,
      tcpPkt ''10.0.0.1'' 1000 ''10.0.0.2'' 2000 False 102 201 25 0,
      tcpPkt ''10.0.0.1'' 1000 ''10.0.0.2'' 2000 False 101 201 26 0,
      tcpPkt ''10.0.0.2'' 2000 ''10.0.0.1'' 1000 False 202 101 27 0]"



text \<open>A state at capture time 400 with a consumed and a pending timestamp entry of the flow
  \<open>a:1+b:2\<close>, that flow idle since time 0, and its reverse seen at time 399.\<close>

definition sweepExample :: state where
  "sweepExample =
     (initState 0)
       \<lparr>flows := [(''a:1+b:2'', (newFlowRec ''a:1+b:2'')\<lparr>last_tm := 0, revFlow := True\<rparr>),
                  (''b:2+a:1'', (newFlowRec ''b:2+a:1'')\<lparr>last_tm := 399, revFlow := True\<rparr>)],
        tsTbl := [(''a:1+b:2+7'', \<lparr>t_ts = - 1, fBytes = 100, dBytes = 0\<rparr>),
                  (''a:1+b:2+8'', \<lparr>t_ts = 395, fBytes = 100, dBytes = 0\<rparr>)],
        offTm := 5, capTm := 400, flowCnt := 2\<rparr>"

text \<open>A state on the edge of the two age limits. The \<^verbatim>\<open>float64\<close> values written
  \<^verbatim>\<open>10.05\<close>, \<^verbatim>\<open>0.05\<close> and \<^verbatim>\<open>300.05\<close> are \<open>2828823515942093 / 2\<^sup>4\<^sup>8\<close>,
  \<open>3602879701896397 / 2\<^sup>5\<^sup>6\<close> and \<open>5278535422627021 / 2\<^sup>4\<^sup>4\<close>. The capture time is
  \<^verbatim>\<open>10.05\<close>; one timestamp entry and the one flow record are stamped \<^verbatim>\<open>0.05\<close>.\<close>

definition sweepEdge :: state where
  "sweepEdge =
     (initState 0)
       \<lparr>flows := [(''a:1+b:2'', (newFlowRec ''a:1+b:2'')\<lparr>last_tm := 3602879701896397 / 2 ^ 56,
                                                         revFlow := True\<rparr>)],
        tsTbl := [(''a:1+b:2+7'', \<lparr>t_ts = 3602879701896397 / 2 ^ 56, fBytes = 100, dBytes = 0\<rparr>)],
        offTm := 5, capTm := 2828823515942093 / 2 ^ 48, flowCnt := 1\<rparr>"





section \<open>Basic facts\<close>

lemma int64_id: "- (2 ^ 63) \<le> x \<Longrightarrow> x < 2 ^ 63 \<Longrightarrow> int64 x = x"
  unfolding int64_def by (rule signed_take_bit_int_eq_self) simp_all

lemma int64_range: "- (2 ^ 63) \<le> int64 x \<and> int64 x < 2 ^ 63"
  unfolding int64_def
  using signed_take_bit_int_greater_eq_minus_exp [of 63 x] signed_take_bit_int_less_exp [of 63 x]
  by simp

lemma int64_idem: "int64 (int64 x) = int64 x"
  by (simp add: int64_def)

lemma int64_succ_neq: "int64 (x + 1) \<noteq> x"
proof
  assume "int64 (x + 1) = x"
  then have "int64 x = int64 (x + 1)"
    by (metis int64_idem)
  then have "take_bit 64 x = take_bit 64 (x + 1)"
    by (simp add: int64_def signed_take_bit_eq_iff_take_bit_eq)
  then have "x mod 2 ^ 64 = (x + 1) mod 2 ^ 64"
    by (simp add: take_bit_eq_mod)
  then have "(2::int) ^ 64 dvd (x + 1) - x"
    by (metis mod_eq_dvd_iff)
  then show False by simp
qed

lemma map_of_modify:
  "map_of (modify key f tbl) k = (if k = key then map_option f (map_of tbl k) else map_of tbl k)"
  by (induction tbl) (auto simp: modify_def)

lemma keys_modify: "map fst (modify key f tbl) = map fst tbl"
  by (induction tbl) (auto simp: modify_def)

lemma length_modify: "length (modify key f tbl) = length tbl"
  by (simp add: modify_def)

lemmas eval_defs =
  processPacket_def processFlow_def depositTS_def tcpPkt_def tsOpt_def be32_def netLayer_def fstrOf_def
  rstrOf_def srcStr_def dstStr_def Itoa_def FormatUint.simps setClock_def acquireFlow_def
  newFlowRec_def modify_def echoMatch_def addTS_def getTS_def tsKey_def int64_id
  initState_def defaultConfig_def seconds_def ieeeOps_def round64_def ulp64_def roundEven_def
  binExp_def bitLength.simps cleanUp_def mainIter_def initLoop_def
  printSummary_def returned_def runFinal_def runTrace_def runSamples_def echoKey_def samplesOn_def
  wallTime_def Let_def

section \<open>The timestamp table is insert-if-absent\<close>

text \<open>
  C7. \<^verbatim>\<open>addTS\<close> on a key that is already in the table, with whatever entry (pending or
  consumed), returns the table unchanged, so a lookup still finds the old entry and the
  new one is dropped; on a key that is not in the table it stores the new entry and
  leaves every other key alone.
\<close>

theorem addTS_insert_if_absent:
  "(map_of tbl key = Some e \<longrightarrow> addTS key ti tbl = tbl \<and> getTS key (addTS key ti tbl) = Some e)
   \<and> (map_of tbl key = None \<longrightarrow>
        getTS key (addTS key ti tbl) = Some ti
        \<and> (\<forall>k. k \<noteq> key \<longrightarrow> getTS k (addTS key ti tbl) = getTS k tbl))"
  by (simp add: addTS_def getTS_def update_conv')

theorem addTS_insert_if_absent_witness:
  "addTS ''k+7'' \<lparr>t_ts = 9, fBytes = 1, dBytes = 1\<rparr>
       [(''k+7'', \<lparr>t_ts = - 2, fBytes = 0, dBytes = 0\<rparr>)]
     = [(''k+7'', \<lparr>t_ts = - 2, fBytes = 0, dBytes = 0\<rparr>)]
   \<and> getTS ''k+7'' (addTS ''k+7'' \<lparr>t_ts = 9, fBytes = 1, dBytes = 1\<rparr> [])
     = Some \<lparr>t_ts = 9, fBytes = 1, dBytes = 1\<rparr>"
  using addTS_insert_if_absent [of "[(''k+7'', \<lparr>t_ts = - 2, fBytes = 0, dBytes = 0\<rparr>)]" "''k+7''"
      "\<lparr>t_ts = - 2, fBytes = 0, dBytes = 0\<rparr>" "\<lparr>t_ts = 9, fBytes = 1, dBytes = 1\<rparr>"]
    addTS_insert_if_absent [of "[]" "''k+7''" "\<lparr>t_ts = - 2, fBytes = 0, dBytes = 0\<rparr>"
      "\<lparr>t_ts = 9, fBytes = 1, dBytes = 1\<rparr>"]
  by simp

section \<open>The time-diff formatter\<close>

text \<open>
  C9. \<^verbatim>\<open>fmtTimeDiff\<close> on any \<open>dt\<close>, non-negative or not. Below \<open>10\<^sup>-\<^sup>3\<close> the scaled value
  \<open>v\<close> is \<open>dt\<close> times \<open>10\<^sup>6\<close> and the unit is \<^verbatim>\<open>u\<close>; from \<open>10\<^sup>-\<^sup>3\<close> on and below 1 it is
  \<open>dt\<close> times \<open>10\<^sup>3\<close> and the unit is \<^verbatim>\<open>m\<close>; from 1 on it is \<open>dt\<close> itself and the unit is
  empty. The product is the \<^verbatim>\<open>float64\<close> product \<open>f_mul fp\<close> the program computes, and it is
  this rounded \<open>v\<close> that selects the format and is printed: \<^verbatim>\<open>%.2f\<close> when \<open>v < 10\<close>,
  \<^verbatim>\<open>%.1f\<close> when \<open>10 \<le> v < 100\<close>, \<^verbatim>\<open> %.0f\<close> with a leading space when \<open>v \<ge> 100\<close>, each
  followed by \<^verbatim>\<open>%s\<close> for the unit and the letter \<^verbatim>\<open>s\<close>.
\<close>

theorem fmtTimeDiff_spec:
  "(dt < 1 / 10 ^ 3 \<longrightarrow>
      (f_mul fp dt (10 ^ 6) < 10 \<longrightarrow>
         fmtTimeDiff Sprintf fp dt = Sprintf ''%.2f%ss'' (f_mul fp dt (10 ^ 6)) ''u'')
      \<and> (10 \<le> f_mul fp dt (10 ^ 6) \<and> f_mul fp dt (10 ^ 6) < 100 \<longrightarrow>
         fmtTimeDiff Sprintf fp dt = Sprintf ''%.1f%ss'' (f_mul fp dt (10 ^ 6)) ''u'')
      \<and> (100 \<le> f_mul fp dt (10 ^ 6) \<longrightarrow>
         fmtTimeDiff Sprintf fp dt = Sprintf '' %.0f%ss'' (f_mul fp dt (10 ^ 6)) ''u''))
   \<and> (1 / 10 ^ 3 \<le> dt \<and> dt < 1 \<longrightarrow>
      (f_mul fp dt (10 ^ 3) < 10 \<longrightarrow>
         fmtTimeDiff Sprintf fp dt = Sprintf ''%.2f%ss'' (f_mul fp dt (10 ^ 3)) ''m'')
      \<and> (10 \<le> f_mul fp dt (10 ^ 3) \<and> f_mul fp dt (10 ^ 3) < 100 \<longrightarrow>
         fmtTimeDiff Sprintf fp dt = Sprintf ''%.1f%ss'' (f_mul fp dt (10 ^ 3)) ''m'')
      \<and> (100 \<le> f_mul fp dt (10 ^ 3) \<longrightarrow>
         fmtTimeDiff Sprintf fp dt = Sprintf '' %.0f%ss'' (f_mul fp dt (10 ^ 3)) ''m''))
   \<and> (1 \<le> dt \<longrightarrow>
      (dt < 10 \<longrightarrow> fmtTimeDiff Sprintf fp dt = Sprintf ''%.2f%ss'' dt [])
      \<and> (10 \<le> dt \<and> dt < 100 \<longrightarrow> fmtTimeDiff Sprintf fp dt = Sprintf ''%.1f%ss'' dt [])
      \<and> (100 \<le> dt \<longrightarrow> fmtTimeDiff Sprintf fp dt = Sprintf '' %.0f%ss'' dt []))"
  by (simp add: fmtTimeDiff_def)

text \<open>The \<^verbatim>\<open>float64\<close> written \<^verbatim>\<open>9.999999999999999e-06\<close> is \<open>368934881474191 / 2\<^sup>6\<^sup>5\<close>. Its
  exact product with \<open>10\<^sup>6\<close> is below 10; the \<^verbatim>\<open>float64\<close> product is 10, and the format
  is \<^verbatim>\<open>%.1f\<close>.\<close>

theorem fmtTimeDiff_spec_witness:
  "368934881474191 / 2 ^ 65 * 10 ^ 6 < (10::real)
   \<and> fmtTimeDiff (\<lambda>f v u. (f, v, u)) ieeeOps (368934881474191 / 2 ^ 65) = (''%.1f%ss'', 10, ''u'')
   \<and> fmtTimeDiff (\<lambda>f v u. (f, v, u)) ieeeOps (1 / 2 ^ 20) = (''%.2f%ss'', 15625 / 2 ^ 14, ''u'')
   \<and> fmtTimeDiff (\<lambda>f v u. (f, v, u)) ieeeOps (1 / 16) = (''%.1f%ss'', 125 / 2, ''m'')
   \<and> fmtTimeDiff (\<lambda>f v u. (f, v, u)) ieeeOps 128 = ('' %.0f%ss'', 128, [])"
  using fmtTimeDiff_spec [of "368934881474191 / 2 ^ 65" ieeeOps "\<lambda>f v u. (f, v, u)"]
    fmtTimeDiff_spec [of "1 / 2 ^ 20" ieeeOps "\<lambda>f v u. (f, v, u)"]
    fmtTimeDiff_spec [of "1 / 16" ieeeOps "\<lambda>f v u. (f, v, u)"]
    fmtTimeDiff_spec [of 128 ieeeOps "\<lambda>f v u. (f, v, u)"]
  by (simp add: ieeeOps_def round64_def ulp64_def roundEven_def binExp_def bitLength.simps)

section \<open>What each stage of \<^verbatim>\<open>processPacket\<close> leaves alone\<close>

lemma setClock_frame:
  "setClock cfg pkt s = (s1, out1) \<Longrightarrow>
     flows s1 = flows s \<and> tsTbl s1 = tsTbl s \<and> pktCnt s1 = pktCnt s \<and> not_tcp s1 = not_tcp s
     \<and> no_TS s1 = no_TS s \<and> not_v4or6 s1 = not_v4or6 s \<and> uniDir s1 = uniDir s
     \<and> flowCnt s1 = flowCnt s \<and> nextFlush s1 = nextFlush s \<and> samplesOf out1 = []"
  by (auto simp: setClock_def split: if_splits)

lemma acquireFlow_frame:
  "acquireFlow cfg fstr rstr s = Some (s2, fr) \<Longrightarrow>
     tsTbl s2 = tsTbl s \<and> pktCnt s2 = pktCnt s \<and> not_tcp s2 = not_tcp s
     \<and> no_TS s2 = no_TS s \<and> not_v4or6 s2 = not_v4or6 s \<and> uniDir s2 = uniDir s
     \<and> nextFlush s2 = nextFlush s \<and> capTm s2 = capTm s \<and> offTm s2 = offTm s
     \<and> startm s2 = startm s"
  by (auto simp: acquireFlow_def Let_def split: option.splits if_splits)

lemma echoMatch_frame:
  "echoMatch cfg pkt fstr rstr key arr fr s = Inr (s', out) \<Longrightarrow>
     pktCnt s' = pktCnt s \<and> not_tcp s' = not_tcp s
     \<and> no_TS s' = no_TS s \<and> not_v4or6 s' = not_v4or6 s \<and> uniDir s' = uniDir s
     \<and> flowCnt s' = flowCnt s \<and> capTm s' = capTm s \<and> offTm s' = offTm s
     \<and> startm s' = startm s
     \<and> map fst (flows s') = map fst (flows s) \<and> map fst (tsTbl s') = map fst (tsTbl s)"
  by (auto simp: echoMatch_def Let_def keys_modify split: option.splits if_splits)

lemma depositTS_frame:
  "pktCnt (depositTS cfg ip fstr tsval arr fr s) = pktCnt s
   \<and> not_tcp (depositTS cfg ip fstr tsval arr fr s) = not_tcp s
   \<and> no_TS (depositTS cfg ip fstr tsval arr fr s) = no_TS s
   \<and> not_v4or6 (depositTS cfg ip fstr tsval arr fr s) = not_v4or6 s
   \<and> uniDir (depositTS cfg ip fstr tsval arr fr s) = uniDir s
   \<and> flowCnt (depositTS cfg ip fstr tsval arr fr s) = flowCnt s
   \<and> capTm (depositTS cfg ip fstr tsval arr fr s) = capTm s
   \<and> offTm (depositTS cfg ip fstr tsval arr fr s) = offTm s
   \<and> startm (depositTS cfg ip fstr tsval arr fr s) = startm s
   \<and> flows (depositTS cfg ip fstr tsval arr fr s)
       = modify fstr (\<lambda>r. r\<lparr>bytesSnt := arr\<rparr>) (flows s)"
  by (simp add: depositTS_def Let_def)

lemma processPacket_pass:
  "tcpLayer pkt = Some tcp \<Longrightarrow> getTSFromTCPOpts (Options tcp) = Inr (tsval, tsecr) \<Longrightarrow>
   \<not> (tsval = 0 \<or> (tsecr = 0 \<and> \<not> SYN tcp)) \<Longrightarrow> netLayer pkt = Some ip \<Longrightarrow>
   processPacket cfg pkt s = processFlow cfg pkt tcp ip tsval tsecr s"
  by (auto simp: processPacket_def)

lemma processPacket_cases:
  assumes "processPacket cfg pkt s = Inr (s', out)"
  shows "(out = [] \<and> (\<exists>c. s' = s\<lparr>not_tcp := c\<rparr> \<or> s' = s\<lparr>no_TS := c\<rparr> \<or> s' = s\<lparr>not_v4or6 := c\<rparr>))
         \<or> (\<exists>tcp ip tsval tsecr.
               tcpLayer pkt = Some tcp \<and> getTSFromTCPOpts (Options tcp) = Inr (tsval, tsecr)
               \<and> \<not> (tsval = 0 \<or> (tsecr = 0 \<and> \<not> SYN tcp)) \<and> netLayer pkt = Some ip
               \<and> processFlow cfg pkt tcp ip tsval tsecr s = Inr (s', out))"
  using assms
  by (auto simp: processPacket_def split: option.splits sum.splits if_splits)

section \<open>The outcomes of \<^verbatim>\<open>processPacket\<close>\<close>

lemma echoMatch_outcome [consumes 1, case_names quiet echo]:
  assumes "echoMatch cfg pkt fstr rstr key arr fr s = Inr (s', out)"
  obtains
    (quiet) "s' = s" and "out = []"
      and "\<forall>ti. map_of (tsTbl s) key = Some ti \<longrightarrow> \<not> t_ts ti > 0"
  | (echo) ti rr where "map_of (tsTbl s) key = Some ti" and "t_ts ti > 0"
      and "map_of (flows s) rstr = Some rr"
      and "flows s' =
             modify rstr (\<lambda>r. r\<lparr>bytesDep := fBytes ti\<rparr>)
               (modify fstr (\<lambda>r. r\<lparr>lstBytesSnt := arr\<rparr>)
                  (if min_fr fr > capTm s - t_ts ti
                   then modify fstr (\<lambda>r. r\<lparr>min_fr := capTm s - t_ts ti\<rparr>) (flows s)
                   else flows s))"
      and "tsTbl s' = modify key (\<lambda>e. e\<lparr>t_ts := - t_ts ti\<rparr>) (tsTbl s)"
      and "out = [Sample \<lparr>s_unix = tsUnix pkt, s_nano = tsNano pkt, s_rtt = capTm s - t_ts ti,
                          s_min = (if min_fr fr > capTm s - t_ts ti then capTm s - t_ts ti
                                   else min_fr fr),
                          s_fBytes = fBytes ti, s_dBytes = dBytes ti,
                          s_pBytes = arr - lstBytesSnt fr, s_fstr = fstr\<rparr>]"
  using assms
  by (auto simp: echoMatch_def getTS_def Let_def map_of_modify
      split: option.splits if_splits)

lemma echoMatch_no_panic:
  "map_of (flows s) rstr \<noteq> None \<Longrightarrow> \<exists>s' out. echoMatch cfg pkt fstr rstr key arr fr s = Inr (s', out)"
  by (auto simp: echoMatch_def getTS_def Let_def map_of_modify split: option.splits)

lemma processFlow_outcome [consumes 1, case_names capacity uni bi]:
  assumes "processFlow cfg pkt tcp ip tsval tsecr s = Inr (s', out)"
  obtains
    (capacity) s1 out1 where "setClock cfg pkt s = (s1, out1)"
      and "acquireFlow cfg (fstrOf ip tcp) (rstrOf ip tcp) s1 = None"
      and "s' = s1" and "out = out1"
  | (uni) s1 out1 s2 fr where "setClock cfg pkt s = (s1, out1)"
      and "acquireFlow cfg (fstrOf ip tcp) (rstrOf ip tcp) s1 = Some (s2, fr)"
      and "\<not> revFlow fr"
      and "s' = s2\<lparr>flows := modify (fstrOf ip tcp) (\<lambda>r. r\<lparr>last_tm := capTm s2\<rparr>) (flows s2),
                     uniDir := int64 (uniDir s2 + 1)\<rparr>"
      and "out = out1"
  | (bi) s1 out1 s2 fr s6 out2 where "setClock cfg pkt s = (s1, out1)"
      and "acquireFlow cfg (fstrOf ip tcp) (rstrOf ip tcp) s1 = Some (s2, fr)"
      and "revFlow fr"
      and "echoMatch cfg pkt (fstrOf ip tcp) (rstrOf ip tcp) (tsKey (rstrOf ip tcp) tsecr)
             (bytesSnt fr + real_of_int (Length pkt)) fr
             (depositTS cfg ip (fstrOf ip tcp) tsval (bytesSnt fr + real_of_int (Length pkt)) fr
                (s2\<lparr>flows := modify (fstrOf ip tcp) (\<lambda>r. r\<lparr>last_tm := capTm s2\<rparr>) (flows s2)\<rparr>))
           = Inr (s6, out2)"
      and "s' = s6\<lparr>pktCnt := int64 (pktCnt s6 + 1)\<rparr>" and "out = out1 @ out2"
  using assms
  by (auto simp: processFlow_def Let_def split: prod.splits option.splits if_splits sum.splits)

lemma samplesOf_append: "samplesOf (xs @ ys) = samplesOf xs @ samplesOf ys"
  by (induction xs rule: samplesOf.induct) auto

lemma processFlow_frame:
  assumes "processFlow cfg pkt tcp ip tsval tsecr s = Inr (s', out)"
  shows "not_tcp s' = not_tcp s \<and> no_TS s' = no_TS s \<and> not_v4or6 s' = not_v4or6 s"
  using assms
proof (cases rule: processFlow_outcome)
  case (capacity s1 out1)
  then show ?thesis by (auto dest!: setClock_frame)
next
  case (uni s1 out1 s2 fr)
  then show ?thesis by (auto dest!: setClock_frame acquireFlow_frame)
next
  case (bi s1 out1 s2 fr s6 out2)
  then show ?thesis
    by (auto dest!: setClock_frame acquireFlow_frame echoMatch_frame simp: depositTS_frame)
qed

lemma acquireFlow_existing:
  "map_of (flows s) f = Some fr \<Longrightarrow> acquireFlow cfg f r s = Some (s, fr)"
  by (simp add: acquireFlow_def)

lemma acquireFlow_full:
  "map_of (flows s) f = None \<Longrightarrow> flowCnt s \<ge> maxFlows cfg \<Longrightarrow> acquireFlow cfg f r s = None"
  by (simp add: acquireFlow_def)

lemma acquireFlow_new:
  "map_of (flows s) f = None \<Longrightarrow> flowCnt s < maxFlows cfg \<Longrightarrow>
   acquireFlow cfg f r s =
     Some (s\<lparr>flows :=
               (if r = f \<or> map_of (flows s) r \<noteq> None
                then modify f (\<lambda>x. x\<lparr>revFlow := True\<rparr>)
                       (modify r (\<lambda>x. x\<lparr>revFlow := True\<rparr>)
                          (AList.update f (newFlowRec f) (flows s)))
                else AList.update f (newFlowRec f) (flows s)),
             flowCnt := int64 (flowCnt s + 1)\<rparr>,
           (newFlowRec f)\<lparr>revFlow := (r = f \<or> map_of (flows s) r \<noteq> None)\<rparr>)"
  by (auto simp: acquireFlow_def Let_def update_conv' newFlowRec_def)

lemma acquireFlow_cases [consumes 1, case_names existing new]:
  assumes "acquireFlow cfg f r s = Some (s2, fr)"
  obtains
    (existing) "map_of (flows s) f = Some fr" and "s2 = s"
  | (new) "map_of (flows s) f = None" and "flowCnt s < maxFlows cfg"
      and "s2 = s\<lparr>flows :=
                   (if r = f \<or> map_of (flows s) r \<noteq> None
                    then modify f (\<lambda>x. x\<lparr>revFlow := True\<rparr>)
                           (modify r (\<lambda>x. x\<lparr>revFlow := True\<rparr>)
                              (AList.update f (newFlowRec f) (flows s)))
                    else AList.update f (newFlowRec f) (flows s)),
                 flowCnt := int64 (flowCnt s + 1)\<rparr>"
      and "fr = (newFlowRec f)\<lparr>revFlow := (r = f \<or> map_of (flows s) r \<noteq> None)\<rparr>"
proof (cases "map_of (flows s) f")
  case None
  with assms have lt: "flowCnt s < maxFlows cfg"
    by (auto simp: acquireFlow_def split: if_splits)
  note eq = trans [OF assms [symmetric] acquireFlow_new [OF None lt, where r = r]]
  note e = eq [unfolded option.inject prod.inject]
  show ?thesis
    by (rule new [OF None lt conjunct1 [OF e] conjunct2 [OF e]])
next
  case (Some x)
  note eq = trans [OF assms [symmetric] acquireFlow_existing [OF Some]]
  note e = eq [unfolded option.inject prod.inject]
  from e have "fr = x" and s2: "s2 = s" by blast+
  with Some have "map_of (flows s) f = Some fr" by simp
  then show ?thesis using s2 by (rule existing)
qed

lemma acquireFlow_lookup:
  assumes "acquireFlow cfg f r s = Some (s2, fr)"
  shows "map_of (flows s2) f = Some fr"
  using assms
  by (cases rule: acquireFlow_cases) (auto simp: map_of_modify update_conv' newFlowRec_def)

lemma acquireFlow_keeps:
  assumes "acquireFlow cfg f r s = Some (s2, fr)" and "map_of (flows s) k = Some x"
  shows "\<exists>y. map_of (flows s2) k = Some y \<and> (y = x \<or> y = x\<lparr>revFlow := True\<rparr>)"
  using assms
  by (cases rule: acquireFlow_cases) (auto simp: map_of_modify update_conv')

section \<open>The eligibility check\<close>

text \<open>
  C4. For a packet with a TCP layer whose options yield \<open>(tsval, tsecr)\<close>:
  if \<open>tsval = 0\<close>, or \<open>tsecr = 0\<close> with the SYN flag clear, \<^verbatim>\<open>processPacket\<close> returns the
  state with \<^verbatim>\<open>no_TS\<close> incremented and nothing else changed, and prints nothing; otherwise,
  whenever it returns, \<^verbatim>\<open>no_TS\<close> is what it was (and so differs from the incremented
  value). Hence a SYN with \<open>tsecr = 0\<close> and \<open>tsval \<noteq> 0\<close> is not counted, and a non-SYN with
  \<open>tsecr = 0\<close> is.
\<close>

theorem no_TS_iff_ineligible:
  assumes "tcpLayer pkt = Some tcp"
    and "getTSFromTCPOpts (Options tcp) = Inr (tsval, tsecr)"
  shows "(tsval = 0 \<or> (tsecr = 0 \<and> \<not> SYN tcp) \<longrightarrow>
            processPacket cfg pkt s = Inr (s\<lparr>no_TS := int64 (no_TS s + 1)\<rparr>, []))
         \<and> (\<not> (tsval = 0 \<or> (tsecr = 0 \<and> \<not> SYN tcp)) \<longrightarrow>
              (\<forall>s' out. processPacket cfg pkt s = Inr (s', out) \<longrightarrow>
                 no_TS s' = no_TS s \<and> no_TS s' \<noteq> int64 (no_TS s + 1)))"
proof (intro conjI impI allI)
  assume "tsval = 0 \<or> (tsecr = 0 \<and> \<not> SYN tcp)"
  with assms show "processPacket cfg pkt s = Inr (s\<lparr>no_TS := int64 (no_TS s + 1)\<rparr>, [])"
    by (simp add: processPacket_def)
next
  fix s' out
  assume ok: "\<not> (tsval = 0 \<or> (tsecr = 0 \<and> \<not> SYN tcp))"
    and run: "processPacket cfg pkt s = Inr (s', out)"
  show "no_TS s' = no_TS s"
  proof (cases "netLayer pkt")
    case None
    with assms ok run show ?thesis
      by (auto simp: processPacket_def)
  next
    case (Some ip)
    with assms ok run have "processFlow cfg pkt tcp ip tsval tsecr s = Inr (s', out)"
      using processPacket_pass [of pkt tcp tsval tsecr ip cfg s] by simp
    then show ?thesis
      by (simp add: processFlow_frame)
  qed
  then show "no_TS s' \<noteq> int64 (no_TS s + 1)"
    using int64_succ_neq [of "no_TS s"] by simp
qed

theorem no_TS_iff_ineligible_witness:
  "processPacket defaultConfig (tcpPkt ''10.0.0.1'' 1000 ''10.0.0.2'' 2000 False 100 0 5 0)
       (initState 0) = Inr ((initState 0)\<lparr>no_TS := 1\<rparr>, [])
   \<and> map_option (\<lambda>r. no_TS (fst r))
         (returned (processPacket defaultConfig
                      (tcpPkt ''10.0.0.1'' 1000 ''10.0.0.2'' 2000 True 100 0 5 0) (initState 0)))
       = Some 0"
  using no_TS_iff_ineligible [of "tcpPkt ''10.0.0.1'' 1000 ''10.0.0.2'' 2000 False 100 0 5 0"
      "\<lparr>SrcPort = 1000, DstPort = 2000, SYN = False, Options = [tsOpt 100 0]\<rparr>" 100 0
      defaultConfig "initState 0"]
    no_TS_iff_ineligible [of "tcpPkt ''10.0.0.1'' 1000 ''10.0.0.2'' 2000 True 100 0 5 0"
      "\<lparr>SrcPort = 1000, DstPort = 2000, SYN = True, Options = [tsOpt 100 0]\<rparr>" 100 0
      defaultConfig "initState 0"]
  by (simp add: eval_defs)

section \<open>The sweeper\<close>

lemma sweepTS_filter:
  "sweepTS fp cfg now xs tbl =
     filter (\<lambda>(k, v). \<not> (\<exists>ti. (k, ti) \<in> set xs \<and> f_sub fp now \<bar>t_ts ti\<bar> > seconds fp (tsvalMaxAge cfg))) tbl"
proof (induction xs arbitrary: tbl)
  case Nil
  show ?case by simp
next
  case (Cons x xs)
  obtain k ti where x: "x = (k, ti)" by (cases x)
  show ?case
    unfolding x
    by (auto simp: Cons.IH AList.delete_eq intro!: filter_cong)
qed

lemma funpow_dec64:
  "int64 c = c \<Longrightarrow> ((\<lambda>c. int64 (c - 1)) ^^ m) c = int64 (c - int m)"
proof (induction m)
  case 0
  then show ?case by simp
next
  case (Suc m)
  have "int64 (int64 (c - int m) - 1) = int64 (c - int m - 1)"
    using signed_take_bit_diff [of 63 "c - int m" 1] by (simp add: int64_def)
  with Suc show ?case by (simp add: algebra_simps)
qed

lemma sweepFlows_filter:
  "sweepFlows fp cfg n xs (tbl, cnt) =
     (filter (\<lambda>(k, v). \<not> (\<exists>fr. (k, fr) \<in> set xs \<and> f_sub fp n (last_tm fr) > seconds fp (flowMaxIdle cfg))) tbl,
      ((\<lambda>c. int64 (c - 1)) ^^ length (filter (\<lambda>(k, fr). f_sub fp n (last_tm fr) > seconds fp (flowMaxIdle cfg)) xs)) cnt)"
proof (induction xs arbitrary: tbl cnt)
  case Nil
  show ?case by simp
next
  case (Cons x xs)
  obtain k fr where x: "x = (k, fr)" by (cases x)
  show ?case
    unfolding x
    by (auto simp: Cons.IH AList.delete_eq funpow_swap1 [of "\<lambda>c. int64 (c - 1)"]
          intro!: filter_cong)
qed

lemma filter_own_keys:
  assumes "distinct (map fst tbl)"
  shows "filter (\<lambda>(k, v). \<not> (\<exists>w. (k, w) \<in> set tbl \<and> P w)) tbl = filter (\<lambda>(k, v). \<not> P v) tbl"
proof (rule filter_cong [OF refl])
  fix x assume "x \<in> set tbl"
  moreover obtain k v where "x = (k, v)" by (cases x)
  ultimately show "(case x of (k, v) \<Rightarrow> \<not> (\<exists>w. (k, w) \<in> set tbl \<and> P w)) = (case x of (k, v) \<Rightarrow> \<not> P v)"
    using assms by (auto dest: eq_key_imp_eq_value)
qed

lemma cleanUp_tables:
  assumes "distinct (map fst (tsTbl s))" and "distinct (map fst (flows s))"
  shows "tsTbl (cleanUp fp cfg n s)
           = filter (\<lambda>(k, e). \<not> f_sub fp (capTm s) \<bar>t_ts e\<bar> > seconds fp (tsvalMaxAge cfg)) (tsTbl s)"
    and "flows (cleanUp fp cfg n s)
           = filter (\<lambda>(k, fr). \<not> f_sub fp n (last_tm fr) > seconds fp (flowMaxIdle cfg)) (flows s)"
    and "flowCnt (cleanUp fp cfg n s)
           = ((\<lambda>c. int64 (c - 1))
                ^^ length (filter (\<lambda>(k, fr). f_sub fp n (last_tm fr) > seconds fp (flowMaxIdle cfg)) (flows s)))
               (flowCnt s)"
  using filter_own_keys [OF assms(1), of "\<lambda>e. f_sub fp (capTm s) \<bar>t_ts e\<bar> > seconds fp (tsvalMaxAge cfg)"]
    filter_own_keys [OF assms(2), of "\<lambda>fr. f_sub fp n (last_tm fr) > seconds fp (flowMaxIdle cfg)"]
  by (simp_all add: cleanUp_def sweepTS_filter sweepFlows_filter)

lemma cleanUp_frame:
  "capTm (cleanUp fp cfg n s) = capTm s \<and> offTm (cleanUp fp cfg n s) = offTm s
   \<and> startm (cleanUp fp cfg n s) = startm s \<and> pktCnt (cleanUp fp cfg n s) = pktCnt s
   \<and> uniDir (cleanUp fp cfg n s) = uniDir s"
  by (simp add: cleanUp_def Let_def split: prod.splits)

text \<open>
  C8. Let the two tables have distinct keys (they are maps) and \<^verbatim>\<open>flowCnt\<close> hold a 64-bit
  value. After \<^verbatim>\<open>cleanUp(n)\<close>, run while the capture time is \<^verbatim>\<open>capTm\<close> (\<^verbatim>\<open>main\<close> calls
  \<^verbatim>\<open>cleanUp(capTm)\<close>, so both are the time \<open>T\<close> of the pass):
  the timestamp table is the old one without the entries with
  \<open>capTm - |t| > tsvalMaxAge\<close>, and nothing else decides what it keeps, so an entry
  keyed on an evicted flow stays unless it has aged out itself;
  the flow table is the old one without the records with \<open>n - last_tm > flowMaxIdle\<close>;
  no entry and no record that remains exceeds its age limit;
  and \<^verbatim>\<open>flowCnt\<close> has gone down by the number of flow records evicted.
  The two differences and the two limits are the \<^verbatim>\<open>float64\<close> values the program
  computes (\<open>f_sub fp\<close>, \<open>seconds fp\<close>): an entry whose age exceeds the limit before
  rounding and equals it after rounding is kept.
\<close>

theorem cleanUp_sweeps:
  assumes "distinct (map fst (tsTbl s))" and "distinct (map fst (flows s))"
    and "int64 (flowCnt s) = flowCnt s"
  shows "tsTbl (cleanUp fp cfg n s)
           = filter (\<lambda>(k, e). \<not> f_sub fp (capTm s) \<bar>t_ts e\<bar> > seconds fp (tsvalMaxAge cfg)) (tsTbl s)
         \<and> flows (cleanUp fp cfg n s)
           = filter (\<lambda>(k, fr). \<not> f_sub fp n (last_tm fr) > seconds fp (flowMaxIdle cfg)) (flows s)
         \<and> (\<forall>k e. (k, e) \<in> set (tsTbl (cleanUp fp cfg n s)) \<longrightarrow>
               \<not> f_sub fp (capTm s) \<bar>t_ts e\<bar> > seconds fp (tsvalMaxAge cfg))
         \<and> (\<forall>k fr. (k, fr) \<in> set (flows (cleanUp fp cfg n s)) \<longrightarrow>
               \<not> f_sub fp n (last_tm fr) > seconds fp (flowMaxIdle cfg))
         \<and> flowCnt (cleanUp fp cfg n s)
           = int64 (flowCnt s
               - int (length (filter (\<lambda>(k, fr). f_sub fp n (last_tm fr) > seconds fp (flowMaxIdle cfg)) (flows s))))
         \<and> capTm (cleanUp fp cfg n s) = capTm s"
  using cleanUp_tables [OF assms(1,2), of fp cfg n] funpow_dec64 [OF assms(3)]
    cleanUp_frame [of fp cfg n s]
  by auto

text \<open>In \<open>sweepEdge\<close> the entry is older than ten seconds by less than half a unit in the
  last place of 10: the \<^verbatim>\<open>float64\<close> difference is 10 and the entry is kept. The same holds
  of the flow record when the pass runs at \<open>300.05\<close>.\<close>

theorem cleanUp_sweeps_witness:
  "tsTbl (cleanUp ieeeOps defaultConfig 400 sweepExample)
     = [(''a:1+b:2+8'', \<lparr>t_ts = 395, fBytes = 100, dBytes = 0\<rparr>)]
   \<and> map fst (flows (cleanUp ieeeOps defaultConfig 400 sweepExample)) = [''b:2+a:1'']
   \<and> flowCnt (cleanUp ieeeOps defaultConfig 400 sweepExample) = 1
   \<and> 10 < capTm sweepEdge - 3602879701896397 / 2 ^ 56
   \<and> tsTbl (cleanUp ieeeOps defaultConfig (capTm sweepEdge) sweepEdge) = tsTbl sweepEdge
   \<and> 300 < 5278535422627021 / 2 ^ 44 - (3602879701896397 / 2 ^ 56 :: real)
   \<and> flows (cleanUp ieeeOps defaultConfig (5278535422627021 / 2 ^ 44)
               (sweepEdge\<lparr>capTm := 5278535422627021 / 2 ^ 44\<rparr>)) = flows sweepEdge
   \<and> flowCnt (cleanUp ieeeOps defaultConfig (5278535422627021 / 2 ^ 44)
                 (sweepEdge\<lparr>capTm := 5278535422627021 / 2 ^ 44\<rparr>)) = 1"
  using cleanUp_sweeps [of sweepExample ieeeOps defaultConfig 400]
    cleanUp_sweeps [of sweepEdge ieeeOps defaultConfig "capTm sweepEdge"]
    cleanUp_sweeps [of "sweepEdge\<lparr>capTm := 5278535422627021 / 2 ^ 44\<rparr>" ieeeOps defaultConfig
      "5278535422627021 / 2 ^ 44"]
  by (simp add: sweepExample_def sweepEdge_def defaultConfig_def seconds_def ieeeOps_def
      round64_def ulp64_def roundEven_def binExp_def bitLength.simps initState_def
      newFlowRec_def int64_id)

section \<open>Packets to the local address\<close>

text \<open>
  C10. Let local traffic be filtered and the destination address of a packet be the
  local address; let the packet pass the three checks, its flow be in the table with
  \<^verbatim>\<open>revFlow\<close> true and the reverse flow be in the table. Then \<^verbatim>\<open>processPacket\<close> returns;
  \<^verbatim>\<open>bytesSnt\<close> of the flow has grown by the wire length of the packet and \<^verbatim>\<open>pktCnt\<close> by
  one; no key has been added to the timestamp table; and the lookup of the reverse key with
  \<^verbatim>\<open>TSecr\<close> has taken place: if it finds a pending entry (\<open>t > 0\<close>), one sample with
  \<open>rtt = capTm - t\<close> is printed and the entry's \<open>t\<close> is negated, and otherwise no sample is
  printed and the timestamp table is unchanged.
\<close>

theorem local_filter_skips_insert_only:
  assumes "tcpLayer pkt = Some tcp"
    and "getTSFromTCPOpts (Options tcp) = Inr (tsval, tsecr)"
    and "\<not> (tsval = 0 \<or> (tsecr = 0 \<and> \<not> SYN tcp))"
    and "netLayer pkt = Some ip"
    and "filtLocal cfg" and "localIP cfg = DstIP ip"
    and "map_of (flows s) (fstrOf ip tcp) = Some fr" and "revFlow fr"
    and "map_of (flows s) (rstrOf ip tcp) = Some rr"
  shows "\<exists>s' out fr'.
           processPacket cfg pkt s = Inr (s', out)
           \<and> map_of (flows s') (fstrOf ip tcp) = Some fr'
           \<and> bytesSnt fr' = bytesSnt fr + real_of_int (Length pkt)
           \<and> pktCnt s' = int64 (pktCnt s + 1)
           \<and> map fst (tsTbl s') = map fst (tsTbl s)
           \<and> (case map_of (tsTbl s) (tsKey (rstrOf ip tcp) tsecr) of
                None \<Rightarrow> samplesOf out = [] \<and> tsTbl s' = tsTbl s
              | Some ti \<Rightarrow>
                  if t_ts ti > 0 then
                    map s_rtt (samplesOf out) = [capTm s' - t_ts ti]
                    \<and> tsTbl s' = modify (tsKey (rstrOf ip tcp) tsecr) (\<lambda>e. e\<lparr>t_ts := - t_ts ti\<rparr>)
                                   (tsTbl s)
                  else samplesOf out = [] \<and> tsTbl s' = tsTbl s)"
proof -
  let ?f = "fstrOf ip tcp" and ?r = "rstrOf ip tcp"
  obtain s1 out1 where sc: "setClock cfg pkt s = (s1, out1)"
    by (cases "setClock cfg pkt s")
  note fr1 = setClock_frame [OF sc]
  have pp: "processPacket cfg pkt s = processFlow cfg pkt tcp ip tsval tsecr s"
    using assms(1-4) by (rule processPacket_pass)
  let ?arr = "bytesSnt fr + real_of_int (Length pkt)"
  let ?s5 = "depositTS cfg ip ?f tsval ?arr fr
               (s1\<lparr>flows := modify ?f (\<lambda>r. r\<lparr>last_tm := capTm s1\<rparr>) (flows s1)\<rparr>)"
  have acq: "acquireFlow cfg ?f ?r s1 = Some (s1, fr)"
    using assms(7) fr1 by (simp add: acquireFlow_existing)
  have ts5: "tsTbl ?s5 = tsTbl s"
    using assms(5,6) fr1 by (simp add: depositTS_def Let_def)
  have f5: "\<exists>x. map_of (flows ?s5) ?f = Some x \<and> bytesSnt x = ?arr"
    using assms(7) fr1 by (simp add: depositTS_frame map_of_modify)
  have r5: "map_of (flows ?s5) ?r \<noteq> None"
    using assms(7,9) fr1 by (auto simp: depositTS_frame map_of_modify)
  have c5: "pktCnt ?s5 = pktCnt s" "capTm ?s5 = capTm s1"
    using fr1 by (simp_all add: depositTS_frame)
  from r5 obtain s6 out2 where
    em: "echoMatch cfg pkt ?f ?r (tsKey ?r tsecr) ?arr fr ?s5 = Inr (s6, out2)"
    using echoMatch_no_panic [of ?s5 ?r cfg pkt ?f "tsKey ?r tsecr" ?arr fr] by auto
  have run: "processPacket cfg pkt s = Inr (s6\<lparr>pktCnt := int64 (pktCnt s6 + 1)\<rparr>, out1 @ out2)"
    using em assms(8) by (simp add: pp processFlow_def sc acq Let_def)
  note efr = echoMatch_frame [OF em]
  have so: "samplesOf (out1 @ out2) = samplesOf out2"
    using fr1 by (simp add: samplesOf_append)
  from em have main:
    "(\<exists>x. map_of (flows s6) ?f = Some x \<and> bytesSnt x = ?arr)
     \<and> (case map_of (tsTbl s) (tsKey ?r tsecr) of
          None \<Rightarrow> samplesOf out2 = [] \<and> tsTbl s6 = tsTbl s
        | Some ti \<Rightarrow>
            if t_ts ti > 0 then
              map s_rtt (samplesOf out2) = [capTm s6 - t_ts ti]
              \<and> tsTbl s6 = modify (tsKey ?r tsecr) (\<lambda>e. e\<lparr>t_ts := - t_ts ti\<rparr>) (tsTbl s)
            else samplesOf out2 = [] \<and> tsTbl s6 = tsTbl s)"
  proof (cases rule: echoMatch_outcome)
    case quiet
    with f5 ts5 show ?thesis
      by (auto split: option.splits)
  next
    case (echo ti rr')
    have "\<exists>x. map_of (flows s6) ?f = Some x \<and> bytesSnt x = ?arr"
      using f5 unfolding echo(4) by (auto simp: map_of_modify)
    moreover have "capTm s6 = capTm ?s5"
      using efr by simp
    ultimately show ?thesis
      using echo(1,2,5,6) ts5 by simp
  qed
  then obtain x where x: "map_of (flows s6) ?f = Some x" "bytesSnt x = ?arr"
    by blast
  have keys: "map fst (tsTbl s6) = map fst (tsTbl s)"
    using efr ts5 by simp
  have pk: "pktCnt s6 = pktCnt s"
    using efr c5 by simp
  let ?s' = "s6\<lparr>pktCnt := int64 (pktCnt s6 + 1)\<rparr>"
  have "processPacket cfg pkt s = Inr (?s', out1 @ out2)
        \<and> map_of (flows ?s') ?f = Some x
        \<and> bytesSnt x = ?arr
        \<and> pktCnt ?s' = int64 (pktCnt s + 1)
        \<and> map fst (tsTbl ?s') = map fst (tsTbl s)
        \<and> (case map_of (tsTbl s) (tsKey ?r tsecr) of
             None \<Rightarrow> samplesOf (out1 @ out2) = [] \<and> tsTbl ?s' = tsTbl s
           | Some ti \<Rightarrow>
               if t_ts ti > 0 then
                 map s_rtt (samplesOf (out1 @ out2)) = [capTm ?s' - t_ts ti]
                 \<and> tsTbl ?s' = modify (tsKey ?r tsecr) (\<lambda>e. e\<lparr>t_ts := - t_ts ti\<rparr>) (tsTbl s)
               else samplesOf (out1 @ out2) = [] \<and> tsTbl ?s' = tsTbl s)"
    using run x keys pk conjunct2 [OF main] by (auto simp: so split: option.splits)
  then show ?thesis
    by blast
qed

theorem local_filter_skips_insert_only_witness:
  "map_option (\<lambda>r. (map s_rtt (samplesOf (snd r)), map fst (tsTbl (fst r)),
                     map_option bytesSnt (map_of (flows (fst r)) flowAB)))
     (returned (processPacket (defaultConfig\<lparr>localIP := ''10.0.0.2''\<rparr>) (captureS1 ! 2)
                  stateAfterSynAck))
     = Some ([1 / 20], [flowBA @ ''+200''], Some 100)"
  using local_filter_skips_insert_only [where pkt = "captureS1 ! 2" and s = stateAfterSynAck
      and cfg = "defaultConfig\<lparr>localIP := ''10.0.0.2''\<rparr>"
      and tcp = "\<lparr>SrcPort = 1000, DstPort = 2000, SYN = False, Options = [tsOpt 101 200]\<rparr>"
      and ip = "\<lparr>SrcIP = ''10.0.0.1'', DstIP = ''10.0.0.2''\<rparr>" and tsval = 101 and tsecr = 200
      and fr = "(newFlowRec flowAB)\<lparr>revFlow := True\<rparr>"
      and rr = "(newFlowRec flowBA)\<lparr>last_tm := 1 / 20, bytesSnt := 100, revFlow := True\<rparr>"]
  by (simp add: eval_defs captureS1_def stateAfterSynAck_def flowAB_def flowBA_def)

section \<open>The flow count\<close>

lemma acquireFlow_flowInv:
  assumes "acquireFlow cfg f r s = Some (s2, fr)" and "flowInv cfg s" and "maxFlows cfg < 2 ^ 63"
  shows "flowInv cfg s2"
  using assms(1)
proof (cases rule: acquireFlow_cases)
  case existing
  with assms(2) show ?thesis by simp
next
  case new
  from new(1) have nk: "f \<notin> set (map fst (flows s))"
    by (simp add: map_of_eq_None_iff)
  have cnt: "int64 (flowCnt s + 1) = flowCnt s + 1"
    using assms(2,3) new(2) by (intro int64_id) (auto simp: flowInv_def)
  have keys: "map fst (flows s2) = map fst (flows s) @ [f]"
    using nk unfolding new(3) by (simp add: keys_modify update_keys)
  have "distinct (map fst (flows s2))"
    unfolding keys using assms(2) nk by (simp add: flowInv_def)
  moreover have "length (flows s2) = Suc (length (flows s))"
    using arg_cong [OF keys, of length] by simp
  moreover have "flowCnt s2 = flowCnt s + 1"
    unfolding new(3) using cnt by simp
  ultimately show ?thesis
    using assms(2) new(2) by (simp add: flowInv_def)
qed

lemma flowInv_cong:
  "flowInv cfg s \<Longrightarrow> map fst (flows s') = map fst (flows s) \<Longrightarrow> flowCnt s' = flowCnt s \<Longrightarrow>
   flowInv cfg s'"
  unfolding flowInv_def by (metis length_map)

lemma setClock_flowInv:
  "setClock cfg pkt s = (s1, out1) \<Longrightarrow> flowInv cfg s \<Longrightarrow> flowInv cfg s1"
  by (drule setClock_frame) (simp add: flowInv_def)

lemma processFlow_flowInv:
  assumes "processFlow cfg pkt tcp ip tsval tsecr s = Inr (s', out)" and "flowInv cfg s"
    and "maxFlows cfg < 2 ^ 63"
  shows "flowInv cfg s'"
  using assms(1)
proof (cases rule: processFlow_outcome)
  case (capacity s1 out1)
  with setClock_flowInv [OF capacity(1) assms(2)] show ?thesis
    by simp
next
  case (uni s1 out1 s2 fr)
  have inv2: "flowInv cfg s2"
    using acquireFlow_flowInv [OF uni(2) setClock_flowInv [OF uni(1) assms(2)] assms(3)] .
  show ?thesis
    unfolding uni(4) by (rule flowInv_cong [OF inv2]) (simp_all add: keys_modify)
next
  case (bi s1 out1 s2 fr s6 out2)
  have inv2: "flowInv cfg s2"
    using acquireFlow_flowInv [OF bi(2) setClock_flowInv [OF bi(1) assms(2)] assms(3)] .
  have same: "map fst (flows s6) = map fst (flows s2)" "flowCnt s6 = flowCnt s2"
    using echoMatch_frame [OF bi(4)] by (simp_all add: depositTS_frame keys_modify)
  show ?thesis
    unfolding bi(5) by (rule flowInv_cong [OF inv2]) (simp_all add: same)
qed

lemma processPacket_outcome [consumes 1, case_names dropped passed]:
  assumes "processPacket cfg pkt s = Inr (s', out)"
  obtains
    (dropped) c where "out = []"
      and "s' = s\<lparr>not_tcp := c\<rparr> \<or> s' = s\<lparr>no_TS := c\<rparr> \<or> s' = s\<lparr>not_v4or6 := c\<rparr>"
  | (passed) tcp ip tsval tsecr where "tcpLayer pkt = Some tcp"
      and "getTSFromTCPOpts (Options tcp) = Inr (tsval, tsecr)"
      and "\<not> (tsval = 0 \<or> (tsecr = 0 \<and> \<not> SYN tcp))" and "netLayer pkt = Some ip"
      and "processFlow cfg pkt tcp ip tsval tsecr s = Inr (s', out)"
  using processPacket_cases [OF assms] by blast

lemma processPacket_flowInv:
  assumes "processPacket cfg pkt s = Inr (s', out)" and "flowInv cfg s" and "maxFlows cfg < 2 ^ 63"
  shows "flowInv cfg s'"
  using assms(1)
proof (cases rule: processPacket_outcome)
  case (dropped c)
  with assms(2) show ?thesis
    by (auto simp: flowInv_def)
next
  case (passed tcp ip tsval tsecr)
  from processFlow_flowInv [OF passed(5) assms(2,3)] show ?thesis .
qed

lemma cleanUp_flows:
  assumes "distinct (map fst (flows s))"
  shows "flows (cleanUp fp cfg n s)
           = filter (\<lambda>(k, fr). \<not> f_sub fp n (last_tm fr) > seconds fp (flowMaxIdle cfg)) (flows s)"
    and "flowCnt (cleanUp fp cfg n s)
           = ((\<lambda>c. int64 (c - 1))
                ^^ length (filter (\<lambda>(k, fr). f_sub fp n (last_tm fr) > seconds fp (flowMaxIdle cfg)) (flows s)))
               (flowCnt s)"
  using filter_own_keys [OF assms, of "\<lambda>fr. f_sub fp n (last_tm fr) > seconds fp (flowMaxIdle cfg)"]
  by (simp_all add: cleanUp_def sweepFlows_filter)

lemma cleanUp_flowInv:
  assumes "flowInv cfg s" and "maxFlows cfg < 2 ^ 63"
  shows "flowInv cfg (cleanUp fp cfg n s)"
proof -
  let ?P = "\<lambda>(k, fr). f_sub fp n (last_tm fr) > seconds fp (flowMaxIdle cfg)"
  let ?m = "length (filter ?P (flows s))"
  from assms(1) have d: "distinct (map fst (flows s))" and c: "flowCnt s = int (length (flows s))"
    and le: "flowCnt s \<le> maxFlows cfg"
    by (simp_all add: flowInv_def)
  have split: "length (flows s) = ?m + length (filter (\<lambda>x. \<not> ?P x) (flows s))"
    using sum_length_filter_compl [of ?P "flows s"] by simp
  have r: "int64 (flowCnt s) = flowCnt s"
    using c le assms(2) by (intro int64_id) auto
  have r2: "int64 (flowCnt s - int ?m) = flowCnt s - int ?m"
    using c le assms(2) split by (intro int64_id) auto
  have fl: "flows (cleanUp fp cfg n s) = filter (\<lambda>x. \<not> ?P x) (flows s)"
    using cleanUp_flows(1) [OF d, of fp cfg n] by (simp add: case_prod_unfold)
  have cnt: "flowCnt (cleanUp fp cfg n s) = flowCnt s - int ?m"
    using cleanUp_flows(2) [OF d, of fp cfg n] funpow_dec64 [OF r, of ?m] r2 by simp
  have "distinct (map fst (flows (cleanUp fp cfg n s)))"
    unfolding fl using d by (rule distinct_map_filter)
  moreover have "flowCnt (cleanUp fp cfg n s) = int (length (flows (cleanUp fp cfg n s)))"
    unfolding fl cnt using c split by simp
  ultimately show ?thesis
    using le cnt by (simp add: flowInv_def)
qed

lemma mainIter_outcome:
  assumes "mainIter fp cfg pkt ls = Inr (brk, ls1, out)"
  shows "\<exists>s1 out1 out2 s2.
           processPacket cfg pkt (eng ls) = Inr (s1, out1)
           \<and> out = out1 @ out2 \<and> samplesOf out2 = []
           \<and> (s2 = s1
                \<or> s2 = s1\<lparr>pktCnt := 0, no_TS := 0, uniDir := 0, not_tcp := 0, not_v4or6 := 0\<rparr>)
           \<and> (eng ls1 = s2 \<or> eng ls1 = cleanUp fp cfg (capTm s2) s2)"
proof -
  from assms obtain s1 out1 where pp: "processPacket cfg pkt (eng ls) = Inr (s1, out1)"
    by (auto simp: mainIter_def split: sum.splits)
  let ?stop = "(timeToRun cfg > 0 \<and> f_sub fp (capTm s1) (startm s1) \<ge> seconds fp (timeToRun cfg))
               \<or> (maxPackets cfg > 0 \<and> pktCnt s1 \<ge> maxPackets cfg)"
  let ?reset = "s1\<lparr>pktCnt := 0, no_TS := 0, uniDir := 0, not_tcp := 0, not_v4or6 := 0\<rparr>"
  show ?thesis
  proof (cases ?stop)
    case True
    with assms pp have "eng ls1 = s1"
      and "out = out1 @ [printSummary s1, Captured (pktCnt s1) (f_sub fp (capTm s1) (startm s1))]"
      by (auto simp: mainIter_def)
    with pp show ?thesis
      by (intro exI [of _ s1] exI [of _ out1]
          exI [of _ "[printSummary s1, Captured (pktCnt s1) (f_sub fp (capTm s1) (startm s1))]"])
        (simp add: printSummary_def)
  next
    case False
    define s2 where "s2 = (if capTm s1 \<ge> nxtSum ls \<and> sumInt cfg > 0 \<and> nxtSum ls > 0
                           then ?reset else s1)"
    define out2 where "out2 = (if capTm s1 \<ge> nxtSum ls \<and> sumInt cfg > 0 \<and> nxtSum ls > 0
                               then [printSummary s1] else [])"
    have cap: "capTm s2 = capTm s1"
      by (simp add: s2_def)
    from assms pp False have "eng ls1 = (if capTm s2 \<ge> nxtClean ls then cleanUp fp cfg (capTm s2) s2 else s2)"
      and "out = out1 @ out2"
      unfolding s2_def out2_def
      by (auto simp: mainIter_def Let_def split: if_splits)
    moreover have "samplesOf out2 = []"
      by (simp add: out2_def printSummary_def)
    moreover have "s2 = s1 \<or> s2 = ?reset"
      by (simp add: s2_def)
    ultimately show ?thesis
      using pp by (intro exI [of _ s1] exI [of _ out1] exI [of _ out2] exI [of _ s2]) auto
  qed
qed

lemma mainIter_flowInv:
  assumes "mainIter fp cfg pkt ls = Inr (brk, ls1, out)" and "flowInv cfg (eng ls)"
    and "maxFlows cfg < 2 ^ 63"
  shows "flowInv cfg (eng ls1)"
proof -
  from mainIter_outcome [OF assms(1)] obtain s1 out1 out2 s2 where
    pp: "processPacket cfg pkt (eng ls) = Inr (s1, out1)"
    and s2: "s2 = s1 \<or> s2 = s1\<lparr>pktCnt := 0, no_TS := 0, uniDir := 0, not_tcp := 0, not_v4or6 := 0\<rparr>"
    and e1: "eng ls1 = s2 \<or> eng ls1 = cleanUp fp cfg (capTm s2) s2"
    by blast
  have "flowInv cfg s1"
    using processPacket_flowInv [OF pp assms(2,3)] .
  with s2 have "flowInv cfg s2"
    by (auto simp: flowInv_def)
  with e1 show ?thesis
    using cleanUp_flowInv [OF _ assms(3), of s2 fp "capTm s2"] by auto
qed

lemma mainLoop_flowInv:
  assumes "mainLoop fp cfg pkts ls = Inr (lsF, tr)" and "flowInv cfg (eng ls)"
    and "maxFlows cfg < 2 ^ 63"
  shows "flowInv cfg (eng lsF) \<and> (\<forall>(pkt, out, st) \<in> set tr. flowInv cfg (eng st))"
  using assms(1,2)
proof (induction pkts arbitrary: ls lsF tr)
  case Nil
  then show ?case by simp
next
  case (Cons pkt pkts)
  from Cons.prems(1) obtain brk ls1 out where it: "mainIter fp cfg pkt ls = Inr (brk, ls1, out)"
    by (auto split: sum.splits)
  have inv1: "flowInv cfg (eng ls1)"
    using mainIter_flowInv [OF it Cons.prems(2) assms(3)] .
  show ?case
  proof (cases brk)
    case True
    with Cons.prems(1) it inv1 show ?thesis by auto
  next
    case False
    with Cons.prems(1) it obtain tr' where
      rest: "mainLoop fp cfg pkts ls1 = Inr (lsF, tr')" and tr: "tr = (pkt, out, ls1) # tr'"
      by (auto split: sum.splits)
    from Cons.IH [OF rest inv1] inv1 tr show ?thesis by auto
  qed
qed

text \<open>
  C6. Let \<^verbatim>\<open>maxFlows\<close> be a non-negative 64-bit value. In every run of the packet loop
  from the initial state, after every iteration (and at the end) \<^verbatim>\<open>flowCnt\<close> is the
  number of records in the flow table and is at most \<^verbatim>\<open>maxFlows\<close>. And in any state, a
  packet that passes the three checks, whose flow is not in the table, while
  \<^verbatim>\<open>flowCnt >= maxFlows\<close>, makes \<^verbatim>\<open>processPacket\<close> return with both tables and all six
  counters unchanged and no sample printed.
\<close>

theorem flowCnt_counts_flows:
  assumes "0 \<le> maxFlows cfg" and "maxFlows cfg < 2 ^ 63"
  shows "(mainLoop fp cfg pkts (initLoop nf) = Inr (lsF, tr) \<longrightarrow>
            (\<forall>st \<in> insert lsF ((\<lambda>(pkt, out, st). st) ` set tr).
               flowCnt (eng st) = int (length (flows (eng st)))
               \<and> flowCnt (eng st) \<le> maxFlows cfg))
         \<and> (tcpLayer pkt = Some tcp \<and> getTSFromTCPOpts (Options tcp) = Inr (tsval, tsecr)
            \<and> \<not> (tsval = 0 \<or> (tsecr = 0 \<and> \<not> SYN tcp)) \<and> netLayer pkt = Some ip
            \<and> map_of (flows s) (fstrOf ip tcp) = None \<and> flowCnt s \<ge> maxFlows cfg
            \<longrightarrow> (\<exists>s' out. processPacket cfg pkt s = Inr (s', out)
                   \<and> flows s' = flows s \<and> tsTbl s' = tsTbl s \<and> flowCnt s' = flowCnt s
                   \<and> pktCnt s' = pktCnt s \<and> no_TS s' = no_TS s \<and> uniDir s' = uniDir s
                   \<and> not_tcp s' = not_tcp s \<and> not_v4or6 s' = not_v4or6 s
                   \<and> samplesOf out = []))"
proof (intro conjI impI)
  assume run: "mainLoop fp cfg pkts (initLoop nf) = Inr (lsF, tr)"
  have "flowInv cfg (eng (initLoop nf))"
    using assms(1) by (simp add: flowInv_def initLoop_def initState_def)
  from mainLoop_flowInv [OF run this assms(2)]
  show "\<forall>st \<in> insert lsF ((\<lambda>(pkt, out, st). st) ` set tr).
          flowCnt (eng st) = int (length (flows (eng st))) \<and> flowCnt (eng st) \<le> maxFlows cfg"
    by (auto simp: flowInv_def)
next
  assume h: "tcpLayer pkt = Some tcp \<and> getTSFromTCPOpts (Options tcp) = Inr (tsval, tsecr)
            \<and> \<not> (tsval = 0 \<or> (tsecr = 0 \<and> \<not> SYN tcp)) \<and> netLayer pkt = Some ip
            \<and> map_of (flows s) (fstrOf ip tcp) = None \<and> flowCnt s \<ge> maxFlows cfg"
  obtain s1 out1 where sc: "setClock cfg pkt s = (s1, out1)"
    by (cases "setClock cfg pkt s")
  note fr1 = setClock_frame [OF sc]
  have pp: "processPacket cfg pkt s = processFlow cfg pkt tcp ip tsval tsecr s"
    using h by (intro processPacket_pass) auto
  have acq: "acquireFlow cfg (fstrOf ip tcp) (rstrOf ip tcp) s1 = None"
    using h fr1 by (intro acquireFlow_full) auto
  have "processPacket cfg pkt s = Inr (s1, out1)"
    by (simp add: pp processFlow_def sc acq)
  with fr1 show "\<exists>s' out. processPacket cfg pkt s = Inr (s', out)
                   \<and> flows s' = flows s \<and> tsTbl s' = tsTbl s \<and> flowCnt s' = flowCnt s
                   \<and> pktCnt s' = pktCnt s \<and> no_TS s' = no_TS s \<and> uniDir s' = uniDir s
                   \<and> not_tcp s' = not_tcp s \<and> not_v4or6 s' = not_v4or6 s
                   \<and> samplesOf out = []"
    by auto
qed

theorem flowCnt_counts_flows_witness:
  "map (\<lambda>(pkt, out, st). (flowCnt (eng st), length (flows (eng st))))
     (runTrace (mainLoop ieeeOps (defaultConfig\<lparr>maxFlows := 1\<rparr>) captureS1 (initLoop 0)))
     = [(1, 1), (1, 1), (1, 1), (1, 1)]
   \<and> map_option (\<lambda>r. (flows (fst r) = flows stateAfterSyn, flowCnt (fst r), pktCnt (fst r),
                       uniDir (fst r), samplesOf (snd r)))
       (returned (processPacket (defaultConfig\<lparr>maxFlows := 1\<rparr>) (captureS1 ! 1) stateAfterSyn))
     = Some (True, 1, 0, 1, [])"
  using flowCnt_counts_flows [where cfg = "defaultConfig\<lparr>maxFlows := 1\<rparr>" and pkts = captureS1
      and nf = 0
      and lsF = "the (runFinal (mainLoop ieeeOps (defaultConfig\<lparr>maxFlows := 1\<rparr>) captureS1 (initLoop 0)))"
      and tr = "runTrace (mainLoop ieeeOps (defaultConfig\<lparr>maxFlows := 1\<rparr>) captureS1 (initLoop 0))"
      and pkt = "captureS1 ! 1" and s = stateAfterSyn
      and tcp = "\<lparr>SrcPort = 2000, DstPort = 1000, SYN = True, Options = [tsOpt 200 0]\<rparr>"
      and ip = "\<lparr>SrcIP = ''10.0.0.2'', DstIP = ''10.0.0.1''\<rparr>" and tsval = 200 and tsecr = 0]
  by (simp add: eval_defs captureS1_def stateAfterSyn_def flowAB_def flowBA_def)

section \<open>The minimum of a flow record\<close>

lemma map_of_filter_keys:
  "map_of (filter (\<lambda>(k, v). Q k) tbl) k = (if Q k then map_of tbl k else None)"
  by (induction tbl) auto

lemma cleanUp_keeps_flow:
  "map_of (flows (cleanUp fp cfg n s)) k = Some fr \<Longrightarrow> map_of (flows s) k = Some fr"
  by (simp add: cleanUp_def sweepFlows_filter map_of_filter_keys split: if_splits)

lemma modify_min:
  assumes "\<And>r. min_fr (g r) = min_fr r" and "map_of (modify f g tbl) k = Some y"
  shows "\<exists>z. map_of tbl k = Some z \<and> min_fr y = min_fr z"
  using assms by (auto simp: map_of_modify split: if_splits)

lemma acquireFlow_min:
  assumes "acquireFlow cfg f r s = Some (s2, fr)" and "map_of (flows s2) k = Some y"
  shows "case map_of (flows s) k of
           None \<Rightarrow> k = f \<and> min_fr y = 10 ^ 30
         | Some x \<Rightarrow> min_fr y = min_fr x"
  using assms(1)
proof (cases rule: acquireFlow_cases)
  case existing
  with assms(2) show ?thesis by simp
next
  case new
  from assms(2) new(1) show ?thesis
    unfolding new(3)
    by (auto simp: map_of_modify update_conv' newFlowRec_def split: if_splits option.splits)
qed

lemma echoMatch_min:
  assumes "echoMatch cfg pkt f r key arr fr s = Inr (s', out)"
    and "map_of (flows s) f = Some x" and "min_fr x = min_fr fr"
    and "map_of (flows s') k = Some y"
  shows "\<exists>z. map_of (flows s) k = Some z \<and> min_fr y \<le> min_fr z
           \<and> (samplesOf out = [] \<or> k \<noteq> f \<longrightarrow> min_fr y = min_fr z)
           \<and> (\<forall>smp \<in> set (samplesOf out).
                 s_fstr smp = f \<and> (k = f \<longrightarrow> min_fr y \<le> s_rtt smp \<and> s_min smp = min_fr y))"
  using assms(1)
proof (cases rule: echoMatch_outcome)
  case quiet
  with assms(4) show ?thesis by simp
next
  case (echo ti rr)
  let ?rtt = "capTm s - t_ts ti"
  show ?thesis
  proof (cases "min_fr fr > ?rtt")
    case True
    with assms(2,3,4) show ?thesis
      unfolding echo(4,6)
      by (auto simp: map_of_modify split: if_splits)
  next
    case False
    with assms(2,3,4) show ?thesis
      unfolding echo(4,6)
      by (auto simp: map_of_modify split: if_splits)
  qed
qed

lemma processFlow_min:
  assumes "processFlow cfg pkt tcp ip tsval tsecr s = Inr (s', out)"
    and "map_of (flows s') k = Some fr'"
  shows "(case map_of (flows s) k of
            None \<Rightarrow> min_fr fr' \<le> 10 ^ 30
                    \<and> ((\<forall>smp \<in> set (samplesOf out). s_fstr smp \<noteq> k) \<longrightarrow> min_fr fr' = 10 ^ 30)
          | Some fr \<Rightarrow> min_fr fr' \<le> min_fr fr
                    \<and> ((\<forall>smp \<in> set (samplesOf out). s_fstr smp \<noteq> k) \<longrightarrow> min_fr fr' = min_fr fr))
         \<and> (\<forall>smp \<in> set (samplesOf out). s_fstr smp = k \<longrightarrow> min_fr fr' \<le> s_rtt smp)"
  using assms(1)
proof (cases rule: processFlow_outcome)
  case (capacity s1 out1)
  with assms(2) setClock_frame [OF capacity(1)] show ?thesis
    by simp
next
  case (uni s1 out1 s2 fr)
  note f1 = setClock_frame [OF uni(1)]
  from assms(2) obtain z where z: "map_of (flows s2) k = Some z" "min_fr fr' = min_fr z"
    unfolding uni(4) using modify_min [of "\<lambda>r. r\<lparr>last_tm := capTm s2\<rparr>" "fstrOf ip tcp" "flows s2" k fr']
    by auto
  from acquireFlow_min [OF uni(2) z(1)] z(2) f1 uni(5) show ?thesis
    by (auto split: option.splits)
next
  case (bi s1 out1 s2 fr s6 out2)
  note f1 = setClock_frame [OF bi(1)]
  let ?f = "fstrOf ip tcp"
  let ?arr = "bytesSnt fr + real_of_int (Length pkt)"
  let ?s3 = "s2\<lparr>flows := modify ?f (\<lambda>r. r\<lparr>last_tm := capTm s2\<rparr>) (flows s2)\<rparr>"
  let ?s5 = "depositTS cfg ip ?f tsval ?arr fr ?s3"
  have fl5: "flows ?s5 = modify ?f (\<lambda>r. r\<lparr>bytesSnt := ?arr\<rparr>)
                           (modify ?f (\<lambda>r. r\<lparr>last_tm := capTm s2\<rparr>) (flows s2))"
    by (simp add: depositTS_frame)
  have own: "\<exists>x. map_of (flows ?s5) ?f = Some x \<and> min_fr x = min_fr fr"
    unfolding fl5 using acquireFlow_lookup [OF bi(2)] by (simp add: map_of_modify)
  then obtain x where x: "map_of (flows ?s5) ?f = Some x" "min_fr x = min_fr fr"
    by blast
  from assms(2) have k6: "map_of (flows s6) k = Some fr'"
    unfolding bi(5) by simp
  from echoMatch_min [OF bi(4) x k6] obtain z5 where
    z5: "map_of (flows ?s5) k = Some z5" "min_fr fr' \<le> min_fr z5"
      "samplesOf out2 = [] \<or> k \<noteq> ?f \<longrightarrow> min_fr fr' = min_fr z5"
      "\<forall>smp \<in> set (samplesOf out2). s_fstr smp = ?f \<and> (k = ?f \<longrightarrow> min_fr fr' \<le> s_rtt smp)"
    by blast
  from z5(1) obtain z2 where z2: "map_of (flows s2) k = Some z2" "min_fr z5 = min_fr z2"
    unfolding fl5 by (auto simp: map_of_modify split: if_splits)
  have so: "samplesOf out = samplesOf out2"
    using f1 bi(6) by (simp add: samplesOf_append)
  have nos: "(\<forall>smp \<in> set (samplesOf out). s_fstr smp \<noteq> k) \<longrightarrow> samplesOf out2 = [] \<or> k \<noteq> ?f"
    unfolding so using z5(4) by (cases "samplesOf out2") auto
  from acquireFlow_min [OF bi(2) z2(1)] z2(2) z5(2,3,4) f1 so nos show ?thesis
    by (auto split: option.splits)
qed

lemma processPacket_min:
  assumes "processPacket cfg pkt s = Inr (s', out)"
    and "map_of (flows s') k = Some fr'"
  shows "(case map_of (flows s) k of
            None \<Rightarrow> min_fr fr' \<le> 10 ^ 30
                    \<and> ((\<forall>smp \<in> set (samplesOf out). s_fstr smp \<noteq> k) \<longrightarrow> min_fr fr' = 10 ^ 30)
          | Some fr \<Rightarrow> min_fr fr' \<le> min_fr fr
                    \<and> ((\<forall>smp \<in> set (samplesOf out). s_fstr smp \<noteq> k) \<longrightarrow> min_fr fr' = min_fr fr))
         \<and> (\<forall>smp \<in> set (samplesOf out). s_fstr smp = k \<longrightarrow> min_fr fr' \<le> s_rtt smp)"
  using assms(1)
proof (cases rule: processPacket_outcome)
  case (dropped c)
  with assms(2) show ?thesis by auto
next
  case (passed tcp ip tsval tsecr)
  from processFlow_min [OF passed(5) assms(2)] show ?thesis .
qed

lemma mainIter_min:
  assumes "mainIter fp cfg pkt ls = Inr (brk, ls1, out)"
    and "map_of (flows (eng ls1)) k = Some fr'"
  shows "(case map_of (flows (eng ls)) k of
            None \<Rightarrow> min_fr fr' \<le> 10 ^ 30
                    \<and> ((\<forall>smp \<in> set (samplesOf out). s_fstr smp \<noteq> k) \<longrightarrow> min_fr fr' = 10 ^ 30)
          | Some fr \<Rightarrow> min_fr fr' \<le> min_fr fr
                    \<and> ((\<forall>smp \<in> set (samplesOf out). s_fstr smp \<noteq> k) \<longrightarrow> min_fr fr' = min_fr fr))
         \<and> (\<forall>smp \<in> set (samplesOf out). s_fstr smp = k \<longrightarrow> min_fr fr' \<le> s_rtt smp)"
proof -
  from mainIter_outcome [OF assms(1)] obtain s1 out1 out2 s2 where
    pp: "processPacket cfg pkt (eng ls) = Inr (s1, out1)"
    and out: "out = out1 @ out2" "samplesOf out2 = []"
    and s2: "s2 = s1 \<or> s2 = s1\<lparr>pktCnt := 0, no_TS := 0, uniDir := 0, not_tcp := 0, not_v4or6 := 0\<rparr>"
    and e1: "eng ls1 = s2 \<or> eng ls1 = cleanUp fp cfg (capTm s2) s2"
    by blast
  from e1 assms(2) have "map_of (flows s2) k = Some fr'"
    by (auto dest: cleanUp_keeps_flow)
  with s2 have k1: "map_of (flows s1) k = Some fr'"
    by auto
  have so: "samplesOf out = samplesOf out1"
    using out by (simp add: samplesOf_append)
  from processPacket_min [OF pp k1] show ?thesis
    unfolding so .
qed

text \<open>
  C3. Take any stretch of the packet loop, from a loop state \<open>ls\<close> to \<open>lsF\<close>, and a flow
  key \<open>k\<close> whose record is in the flow table after every iteration of the stretch (the
  record is not evicted in between) and at its end, with final minimum \<open>min_fr frF\<close>.
  If the record did not exist at \<open>ls\<close> (it was created in the stretch), the final minimum
  is at most the sentinel \<open>10\<^sup>3\<^sup>0\<close> and is exactly the sentinel when no sample was printed
  for the flow; if it existed, the final minimum is at most the minimum at \<open>ls\<close>, and equal
  to it when no sample was printed for the flow. In both cases the final minimum is at most
  the \<open>rtt\<close> of every sample printed for the flow in the stretch.
\<close>

theorem min_rtt_monotone:
  assumes "mainLoop fp cfg pkts ls = Inr (lsF, tr)"
    and "\<forall>(pkt, out, st) \<in> set tr. k \<in> fst ` set (flows (eng st))"
    and "map_of (flows (eng lsF)) k = Some frF"
  shows "(case map_of (flows (eng ls)) k of
            None \<Rightarrow>
              min_fr frF \<le> 10 ^ 30
              \<and> ((\<forall>(pkt, out, st) \<in> set tr. \<forall>smp \<in> set (samplesOf out). s_fstr smp \<noteq> k)
                   \<longrightarrow> min_fr frF = 10 ^ 30)
          | Some fr \<Rightarrow>
              min_fr frF \<le> min_fr fr
              \<and> ((\<forall>(pkt, out, st) \<in> set tr. \<forall>smp \<in> set (samplesOf out). s_fstr smp \<noteq> k)
                   \<longrightarrow> min_fr frF = min_fr fr))
         \<and> (\<forall>(pkt, out, st) \<in> set tr. \<forall>smp \<in> set (samplesOf out).
               s_fstr smp = k \<longrightarrow> min_fr frF \<le> s_rtt smp)"
  using assms
proof (induction pkts arbitrary: ls tr)
  case Nil
  then show ?case by simp
next
  case (Cons pkt pkts)
  from Cons.prems(1) obtain brk ls1 out where it: "mainIter fp cfg pkt ls = Inr (brk, ls1, out)"
    by (auto split: sum.splits)
  show ?case
  proof (cases brk)
    case True
    with Cons.prems(1) it have "lsF = ls1" and "tr = [(pkt, out, ls1)]"
      by auto
    with mainIter_min [OF it, of k frF] Cons.prems(3) show ?thesis
      by (auto split: option.splits)
  next
    case False
    with Cons.prems(1) it obtain tr' where
      rest: "mainLoop fp cfg pkts ls1 = Inr (lsF, tr')" and tr: "tr = (pkt, out, ls1) # tr'"
      by (auto split: sum.splits)
    from Cons.prems(2) tr have "k \<in> fst ` set (flows (eng ls1))"
      and alive: "\<forall>(pkt, out, st) \<in> set tr'. k \<in> fst ` set (flows (eng st))"
      by auto
    then obtain fr1 where fr1: "map_of (flows (eng ls1)) k = Some fr1"
      by (cases "map_of (flows (eng ls1)) k") (auto simp: map_of_eq_None_iff)
    from Cons.IH [OF rest alive Cons.prems(3)] fr1 have
      later: "min_fr frF \<le> min_fr fr1"
        "(\<forall>(pkt, out, st) \<in> set tr'. \<forall>smp \<in> set (samplesOf out). s_fstr smp \<noteq> k)
           \<longrightarrow> min_fr frF = min_fr fr1"
        "\<forall>(pkt, out, st) \<in> set tr'. \<forall>smp \<in> set (samplesOf out).
           s_fstr smp = k \<longrightarrow> min_fr frF \<le> s_rtt smp"
      by simp_all
    from mainIter_min [OF it fr1] have
      first: "case map_of (flows (eng ls)) k of
                None \<Rightarrow> min_fr fr1 \<le> 10 ^ 30
                        \<and> ((\<forall>smp \<in> set (samplesOf out). s_fstr smp \<noteq> k) \<longrightarrow> min_fr fr1 = 10 ^ 30)
              | Some fr \<Rightarrow> min_fr fr1 \<le> min_fr fr
                        \<and> ((\<forall>smp \<in> set (samplesOf out). s_fstr smp \<noteq> k)
                             \<longrightarrow> min_fr fr1 = min_fr fr)"
        and here: "\<forall>smp \<in> set (samplesOf out). s_fstr smp = k \<longrightarrow> min_fr fr1 \<le> s_rtt smp"
      by simp_all
    have samples: "\<forall>(pkt, out, st) \<in> set tr. \<forall>smp \<in> set (samplesOf out).
                     s_fstr smp = k \<longrightarrow> min_fr frF \<le> s_rtt smp"
      unfolding tr using later(1,3) here by fastforce
    have quietly: "(\<forall>(pkt, out, st) \<in> set tr. \<forall>smp \<in> set (samplesOf out). s_fstr smp \<noteq> k)
                    \<longrightarrow> (\<forall>smp \<in> set (samplesOf out). s_fstr smp \<noteq> k) \<and> min_fr frF = min_fr fr1"
      unfolding tr using later(2) by simp
    show ?thesis
    proof (cases "map_of (flows (eng ls)) k")
      case None
      with first later(1) quietly samples show ?thesis
        by auto
    next
      case (Some fr)
      with first later(1) quietly samples show ?thesis
        by auto
    qed
  qed
qed

theorem min_rtt_monotone_witness:
  "min_fr (the (map_of (flows (eng (the (runFinal (mainLoop ieeeOps defaultConfig captureS1
                                                      (initLoop 0)))))) flowAB)) \<le> 1 / 20"
proof -
  have "\<exists>lsF tr frF smp.
          mainLoop ieeeOps defaultConfig captureS1 (initLoop 0) = Inr (lsF, tr)
          \<and> (\<forall>(pkt, out, st) \<in> set tr. flowAB \<in> fst ` set (flows (eng st)))
          \<and> map_of (flows (eng lsF)) flowAB = Some frF
          \<and> length tr = 4 \<and> samplesOf (fst (snd (tr ! 2))) = [smp]
          \<and> s_fstr smp = flowAB \<and> s_rtt smp = 1 / 20"
    by (simp add: eval_defs captureS1_def flowAB_def flowBA_def)
  then obtain lsF tr frF smp where
    run: "mainLoop ieeeOps defaultConfig captureS1 (initLoop 0) = Inr (lsF, tr)"
    and alive: "\<forall>(pkt, out, st) \<in> set tr. flowAB \<in> fst ` set (flows (eng st))"
    and fin: "map_of (flows (eng lsF)) flowAB = Some frF"
    and len: "length tr = 4" and smp: "samplesOf (fst (snd (tr ! 2))) = [smp]"
      "s_fstr smp = flowAB" "s_rtt smp = 1 / 20"
    by blast
  obtain pkt out st where third: "tr ! 2 = (pkt, out, st)"
    by (cases "tr ! 2")
  have mem: "(pkt, out, st) \<in> set tr"
    using len nth_mem [of 2 tr] third by simp
  from min_rtt_monotone [OF run alive fin] mem smp third have "min_fr frF \<le> 1 / 20"
    by fastforce
  with run fin show ?thesis
    by (simp add: runFinal_def)
qed

section \<open>Consumption of timestamp entries\<close>

lemma addTS_lookup:
  "map_of (addTS key ti tbl) k
     = (case map_of tbl k of Some e \<Rightarrow> Some e | None \<Rightarrow> if k = key then Some ti else None)"
  by (auto simp: addTS_def update_conv' split: option.splits)

lemma depositTS_keeps:
  "map_of (tsTbl s) k = Some e \<Longrightarrow> map_of (tsTbl (depositTS cfg ip f v arr fr s)) k = Some e"
  by (simp add: depositTS_def Let_def addTS_lookup)

lemma cleanUp_keeps_ts:
  "k \<in> fst ` set (tsTbl (cleanUp fp cfg n s)) \<Longrightarrow>
   map_of (tsTbl (cleanUp fp cfg n s)) k = map_of (tsTbl s) k"
proof -
  assume "k \<in> fst ` set (tsTbl (cleanUp fp cfg n s))"
  then have "map_of (tsTbl (cleanUp fp cfg n s)) k \<noteq> None"
    by (simp add: map_of_eq_None_iff)
  then show ?thesis
    by (auto simp: cleanUp_def Let_def sweepTS_filter map_of_filter_keys split: if_splits prod.splits)
qed

lemma echoMatch_consumed:
  assumes "echoMatch cfg pkt f r key arr fr s = Inr (s', out)"
    and "map_of (tsTbl s) k = Some e" and "t_ts e \<le> 0"
  shows "map_of (tsTbl s') k = Some e \<and> (k = key \<longrightarrow> out = [])"
  using assms(1)
proof (cases rule: echoMatch_outcome)
  case quiet
  with assms(2) show ?thesis by simp
next
  case (echo ti rr)
  with assms(2,3) have "k \<noteq> key" by auto
  with assms(2) show ?thesis
    unfolding echo(5) by (simp add: map_of_modify)
qed

lemma echoMatch_consumes:
  assumes "echoMatch cfg pkt f r key arr fr s = Inr (s', out)" and "samplesOf out \<noteq> []"
  shows "\<exists>e'. map_of (tsTbl s') key = Some e' \<and> t_ts e' < 0"
  using assms(1)
proof (cases rule: echoMatch_outcome)
  case quiet
  with assms(2) show ?thesis by simp
next
  case (echo ti rr)
  then show ?thesis
    by (simp add: map_of_modify)
qed

lemma processFlow_consumed:
  assumes "processFlow cfg pkt tcp ip tsval tsecr s = Inr (s', out)"
    and "map_of (tsTbl s) k = Some e" and "t_ts e \<le> 0"
  shows "map_of (tsTbl s') k = Some e \<and> (k = tsKey (rstrOf ip tcp) tsecr \<longrightarrow> samplesOf out = [])"
  using assms(1)
proof (cases rule: processFlow_outcome)
  case (capacity s1 out1)
  with assms(2) setClock_frame [OF capacity(1)] show ?thesis by simp
next
  case (uni s1 out1 s2 fr)
  with assms(2) setClock_frame [OF uni(1)] acquireFlow_frame [OF uni(2)] show ?thesis by simp
next
  case (bi s1 out1 s2 fr s6 out2)
  note f1 = setClock_frame [OF bi(1)] and f2 = acquireFlow_frame [OF bi(2)]
  let ?s3 = "s2\<lparr>flows := modify (fstrOf ip tcp) (\<lambda>r. r\<lparr>last_tm := capTm s2\<rparr>) (flows s2)\<rparr>"
  have "map_of (tsTbl ?s3) k = Some e"
    using assms(2) f1 f2 by simp
  from echoMatch_consumed [OF bi(4) depositTS_keeps [OF this] assms(3)] f1 bi(5,6)
  show ?thesis
    by (simp add: samplesOf_append)
qed

lemma processFlow_consumes:
  assumes "processFlow cfg pkt tcp ip tsval tsecr s = Inr (s', out)" and "samplesOf out \<noteq> []"
  shows "\<exists>e'. map_of (tsTbl s') (tsKey (rstrOf ip tcp) tsecr) = Some e' \<and> t_ts e' < 0"
  using assms(1)
proof (cases rule: processFlow_outcome)
  case (capacity s1 out1)
  with assms(2) setClock_frame [OF capacity(1)] show ?thesis by simp
next
  case (uni s1 out1 s2 fr)
  with assms(2) setClock_frame [OF uni(1)] show ?thesis by simp
next
  case (bi s1 out1 s2 fr s6 out2)
  from assms(2) setClock_frame [OF bi(1)] bi(6) have "samplesOf out2 \<noteq> []"
    by (simp add: samplesOf_append)
  from echoMatch_consumes [OF bi(4) this] bi(5) show ?thesis
    by simp
qed

lemma processPacket_consumed:
  assumes "processPacket cfg pkt s = Inr (s', out)"
    and "map_of (tsTbl s) k = Some e" and "t_ts e \<le> 0"
  shows "map_of (tsTbl s') k = Some e \<and> (echoKey pkt = Some k \<longrightarrow> samplesOf out = [])"
  using assms(1)
proof (cases rule: processPacket_outcome)
  case (dropped c)
  with assms(2) show ?thesis by auto
next
  case (passed tcp ip tsval tsecr)
  from passed(1,2,4) have "echoKey pkt = Some (tsKey (rstrOf ip tcp) tsecr)"
    by (simp add: echoKey_def)
  with processFlow_consumed [OF passed(5) assms(2,3)] show ?thesis
    by auto
qed

lemma processPacket_consumes:
  assumes "processPacket cfg pkt s = Inr (s', out)" and "samplesOf out \<noteq> []"
  shows "\<exists>k e'. echoKey pkt = Some k \<and> map_of (tsTbl s') k = Some e' \<and> t_ts e' < 0"
  using assms(1)
proof (cases rule: processPacket_outcome)
  case (dropped c)
  with assms(2) show ?thesis by simp
next
  case (passed tcp ip tsval tsecr)
  from passed(1,2,4) have "echoKey pkt = Some (tsKey (rstrOf ip tcp) tsecr)"
    by (simp add: echoKey_def)
  with processFlow_consumes [OF passed(5) assms(2)] show ?thesis
    by auto
qed

lemma mainIter_ts:
  assumes "mainIter fp cfg pkt ls = Inr (brk, ls1, out)"
    and "k \<in> fst ` set (tsTbl (eng ls1))"
  shows "(\<forall>e. map_of (tsTbl (eng ls)) k = Some e \<and> t_ts e \<le> 0 \<longrightarrow>
            map_of (tsTbl (eng ls1)) k = Some e
            \<and> \<not> (echoKey pkt = Some k \<and> samplesOf out \<noteq> []))
         \<and> (echoKey pkt = Some k \<and> samplesOf out \<noteq> [] \<longrightarrow>
              (\<exists>e'. map_of (tsTbl (eng ls1)) k = Some e' \<and> t_ts e' < 0))"
proof -
  from mainIter_outcome [OF assms(1)] obtain s1 out1 out2 s2 where
    pp: "processPacket cfg pkt (eng ls) = Inr (s1, out1)"
    and out: "out = out1 @ out2" "samplesOf out2 = []"
    and s2: "s2 = s1 \<or> s2 = s1\<lparr>pktCnt := 0, no_TS := 0, uniDir := 0, not_tcp := 0, not_v4or6 := 0\<rparr>"
    and e1: "eng ls1 = s2 \<or> eng ls1 = cleanUp fp cfg (capTm s2) s2"
    by blast
  have so: "samplesOf out = samplesOf out1"
    using out by (simp add: samplesOf_append)
  from s2 have t2: "tsTbl s2 = tsTbl s1"
    by auto
  have same: "map_of (tsTbl (eng ls1)) k = map_of (tsTbl s1) k"
  proof (cases "eng ls1 = s2")
    case True
    with t2 show ?thesis by simp
  next
    case False
    with e1 have c: "eng ls1 = cleanUp fp cfg (capTm s2) s2" by simp
    from assms(2) have "k \<in> fst ` set (tsTbl (cleanUp fp cfg (capTm s2) s2))"
      unfolding c .
    from cleanUp_keeps_ts [OF this] t2 show ?thesis
      unfolding c by simp
  qed
  show ?thesis
    unfolding so same
    using processPacket_consumed [OF pp, of k] processPacket_consumes [OF pp]
    by auto
qed

lemma samplesOn_Cons:
  "samplesOn k ((pkt, out, st) # tr)
     = (if echoKey pkt = Some k \<and> samplesOf out \<noteq> [] then 1 else 0) + samplesOn k tr"
  by (simp add: samplesOn_def)

lemma mainLoop_consumed:
  assumes "mainLoop fp cfg pkts ls = Inr (lsF, tr)"
    and "\<forall>(pkt, out, st) \<in> set tr. k \<in> fst ` set (tsTbl (eng st))"
    and "map_of (tsTbl (eng ls)) k = Some e" and "t_ts e \<le> 0"
  shows "samplesOn k tr = 0 \<and> map_of (tsTbl (eng lsF)) k = Some e"
  using assms(1,2,3)
proof (induction pkts arbitrary: ls tr)
  case Nil
  then show ?case by (simp add: samplesOn_def)
next
  case (Cons pkt pkts)
  from Cons.prems(1) obtain brk ls1 out where it: "mainIter fp cfg pkt ls = Inr (brk, ls1, out)"
    by (auto split: sum.splits)
  from Cons.prems(1) it have hd: "\<exists>tr'. tr = (pkt, out, ls1) # tr'"
    by (auto split: sum.splits if_splits)
  with Cons.prems(2) have a1: "k \<in> fst ` set (tsTbl (eng ls1))"
    by auto
  from mainIter_ts [OF it a1] Cons.prems(3) assms(4) have
    keep: "map_of (tsTbl (eng ls1)) k = Some e"
    and quiet: "\<not> (echoKey pkt = Some k \<and> samplesOf out \<noteq> [])"
    by blast+
  show ?case
  proof (cases brk)
    case True
    with Cons.prems(1) it have "lsF = ls1" and "tr = [(pkt, out, ls1)]"
      by auto
    with keep quiet show ?thesis
      by (simp add: samplesOn_def)
  next
    case False
    with Cons.prems(1) it obtain tr' where
      rest: "mainLoop fp cfg pkts ls1 = Inr (lsF, tr')" and tr: "tr = (pkt, out, ls1) # tr'"
      by (auto split: sum.splits)
    from Cons.prems(2) tr have alive: "\<forall>(pkt, out, st) \<in> set tr'. k \<in> fst ` set (tsTbl (eng st))"
      by auto
    from Cons.IH [OF rest alive keep] quiet show ?thesis
      unfolding tr samplesOn_Cons by simp
  qed
qed

text \<open>
  C2 (as the code has it). Take any stretch of the packet loop and a timestamp-table key
  \<open>k\<close> that is in the table after every iteration of the stretch (the entry is not evicted
  in between). Then at most one packet of the stretch that looks \<open>k\<close> up prints a sample;
  none does when the entry was already consumed (\<open>t \<le> 0\<close>) at the start; and when one
  does, the entry at \<open>k\<close> has a negative \<open>t\<close> at the end.
\<close>

theorem one_sample_per_entry:
  assumes "mainLoop fp cfg pkts ls = Inr (lsF, tr)"
    and "\<forall>(pkt, out, st) \<in> set tr. k \<in> fst ` set (tsTbl (eng st))"
  shows "samplesOn k tr \<le> 1
         \<and> ((\<exists>e. map_of (tsTbl (eng ls)) k = Some e \<and> t_ts e \<le> 0) \<longrightarrow> samplesOn k tr = 0)
         \<and> (samplesOn k tr = 1 \<longrightarrow> (\<exists>e. map_of (tsTbl (eng lsF)) k = Some e \<and> t_ts e < 0))"
proof -
  have once: "samplesOn k tr \<le> 1
              \<and> (samplesOn k tr = 1 \<longrightarrow> (\<exists>e. map_of (tsTbl (eng lsF)) k = Some e \<and> t_ts e < 0))"
    using assms
  proof (induction pkts arbitrary: ls tr)
    case Nil
    then show ?case by (simp add: samplesOn_def)
  next
    case (Cons pkt pkts)
    from Cons.prems(1) obtain brk ls1 out where it: "mainIter fp cfg pkt ls = Inr (brk, ls1, out)"
      by (auto split: sum.splits)
    from Cons.prems(1) it have hd: "\<exists>tr'. tr = (pkt, out, ls1) # tr'"
      by (auto split: sum.splits if_splits)
    with Cons.prems(2) have a1: "k \<in> fst ` set (tsTbl (eng ls1))"
      by auto
    note step = mainIter_ts [OF it a1]
    show ?case
    proof (cases brk)
      case True
      with Cons.prems(1) it have "lsF = ls1" and "tr = [(pkt, out, ls1)]"
        by auto
      with step show ?thesis
        by (auto simp: samplesOn_def)
    next
      case False
      with Cons.prems(1) it obtain tr' where
        rest: "mainLoop fp cfg pkts ls1 = Inr (lsF, tr')" and tr: "tr = (pkt, out, ls1) # tr'"
        by (auto split: sum.splits)
      from Cons.prems(2) tr have
        alive: "\<forall>(pkt, out, st) \<in> set tr'. k \<in> fst ` set (tsTbl (eng st))"
        by auto
      show ?thesis
      proof (cases "echoKey pkt = Some k \<and> samplesOf out \<noteq> []")
        case True
        with step obtain e' where e': "map_of (tsTbl (eng ls1)) k = Some e'" "t_ts e' < 0"
          by blast
        from mainLoop_consumed [OF rest alive e'(1)] e'(2) True show ?thesis
          unfolding tr samplesOn_Cons by auto
      next
        case False
        with Cons.IH [OF rest alive] show ?thesis
          unfolding tr samplesOn_Cons by auto
      qed
    qed
  qed
  moreover have "(\<exists>e. map_of (tsTbl (eng ls)) k = Some e \<and> t_ts e \<le> 0) \<longrightarrow> samplesOn k tr = 0"
    using mainLoop_consumed [OF assms] by blast
  ultimately show ?thesis
    by blast
qed

theorem one_sample_per_entry_witness:
  "samplesOn (flowBA @ ''+200'')
     (runTrace (mainLoop ieeeOps defaultConfig (drop 2 captureS1)
                  \<lparr>eng = stateAfterSynAck, nxtSum = 10, nxtClean = 10\<rparr>)) \<le> 1"
proof -
  have "\<exists>lsF tr.
          mainLoop ieeeOps defaultConfig (drop 2 captureS1)
            \<lparr>eng = stateAfterSynAck, nxtSum = 10, nxtClean = 10\<rparr> = Inr (lsF, tr)
          \<and> (\<forall>(pkt, out, st) \<in> set tr. flowBA @ ''+200'' \<in> fst ` set (tsTbl (eng st)))"
    by (simp add: eval_defs captureS1_def stateAfterSynAck_def flowAB_def flowBA_def)
  then obtain lsF tr where
    run: "mainLoop ieeeOps defaultConfig (drop 2 captureS1)
            \<lparr>eng = stateAfterSynAck, nxtSum = 10, nxtClean = 10\<rparr> = Inr (lsF, tr)"
    and alive: "\<forall>(pkt, out, st) \<in> set tr. flowBA @ ''+200'' \<in> fst ` set (tsTbl (eng st))"
    by blast
  from one_sample_per_entry [OF run alive] run show ?thesis
    by (simp add: runTrace_def)
qed

theorem pair_sampled_twice_after_eviction:
  "samplesOn (flowAB @ ''+101'') (runTrace (mainLoop ieeeOps defaultConfig captureEvict (initLoop 0))) = 2"
  by (simp add: eval_defs captureEvict_def flowAB_def)

section \<open>The round-trip time of a sample\<close>



















section \<open>The bi-directionality gate\<close>






























end
